theory Spec2Isabelle
  imports Complex_Main "HOL-Library.AList"
begin

section \<open>Operator commands and the input listener\<close>

text \<open>
  The replay scripts (\<^verbatim>\<open>replay_all_episodes.py\<close>, \<^verbatim>\<open>replay_with_real_robot.py\<close>,
  \<^verbatim>\<open>demo_episode_replay.py\<close>, \<^verbatim>\<open>replay_moving_tape_dataset.py\<close>) share one design: a
  main thread that sends the recorded frames to the robot and a daemon thread that reads
  operator commands from standard input and writes two flags of the replayer object.

  An operator line is a Python \<^verbatim>\<open>str\<close>; it is modelled as a list of code points below
  256. \<^verbatim>\<open>str.strip()\<close> removes the code points for which \<^verbatim>\<open>str.isspace\<close> holds at both
  ends, \<^verbatim>\<open>str.lower()\<close> maps the upper-case letters of that range to lower case:
  they are 32 below their lower-case forms and have bit 5 clear, so setting bit 5 adds 32.
\<close>

definition isspace :: "char \<Rightarrow> bool" where
  "isspace c =
     (let n = (of_char c :: nat)
      in (9 \<le> n \<and> n \<le> 13) \<or> (28 \<le> n \<and> n \<le> 32) \<or> n = 133 \<or> n = 160)"

definition lower_char :: "char \<Rightarrow> char" where
  "lower_char c =
     (let n = (of_char c :: nat)
      in if (65 \<le> n \<and> n \<le> 90) \<or> (192 \<le> n \<and> n \<le> 222 \<and> n \<noteq> 215)
         then (case c of Char b0 b1 b2 b3 b4 b5 b6 b7 \<Rightarrow> Char b0 b1 b2 b3 b4 True b6 b7)
         else c)"

definition strip :: "string \<Rightarrow> string" where
  "strip l = rev (dropWhile isspace (rev (dropWhile isspace l)))"

definition lower :: "string \<Rightarrow> string" where
  "lower l = map lower_char l"

text \<open>
  One call of \<^verbatim>\<open>input()\<close> in the listener thread returns a line, or raises
  \<^verbatim>\<open>EOFError\<close> or \<^verbatim>\<open>KeyboardInterrupt\<close>.
\<close>

datatype input_ev = Line string | EOFError | KeyboardInterrupt

text \<open>What the listener prints.\<close>

datatype console =
    StoppingReplay
  | ReplayPaused
  | ReplayResumed
  | MovingToNext
  | AlreadyPlaying
  | SkippingEpisode
  | HelpText
  | UnknownCommand
  | ResettingRobot
  | MovingHome
  | ResetDone
  | ResetError

text \<open>
  The fields of \<^verbatim>\<open>EpisodeReplayer\<close> (\<^verbatim>\<open>replay_all_episodes.py\<close>, \<^verbatim>\<open>__init__\<close> and
  \<^verbatim>\<open>setup_robot_and_dataset\<close>). \<open>robot_connected\<close> stands for
  \<^verbatim>\<open>self.robot and self.robot.is_connected\<close>; \<open>listening\<close> is the control state of the
  listener thread: true while the thread has not left its \<^verbatim>\<open>while\<close> loop through
  \<^verbatim>\<open>break\<close>.
\<close>

record replayer =
  current_episode :: int
  total_episodes :: int
  end_episode :: int
  is_paused :: bool
  should_stop :: bool
  robot_connected :: bool
  listening :: bool

text \<open>
  The body of the listener's loop, \<^verbatim>\<open>input_listener\<close> in \<^verbatim>\<open>start_input_listener\<close>:
  the \<^verbatim>\<open>if\<close>/\<^verbatim>\<open>elif\<close> chain in the source's order. \<^verbatim>\<open>break\<close> clears \<open>listening\<close>.
\<close>

fun listener_body :: "input_ev \<Rightarrow> replayer \<Rightarrow> replayer \<times> console list" where
  "listener_body (Line l) s =
     (let cmd = lower (strip l) in
      if cmd = ''q'' \<or> cmd = ''quit'' then (s\<lparr>should_stop := True\<rparr>, [StoppingReplay])
      else if cmd = ''p'' \<or> cmd = ''pause'' then
        (s\<lparr>is_paused := \<not> is_paused s\<rparr>,
         [if \<not> is_paused s then ReplayPaused else ReplayResumed])
      else if cmd = ''n'' \<or> cmd = ''next'' then
        (if is_paused s then (s\<lparr>is_paused := False\<rparr>, [MovingToNext])
         else (s, [AlreadyPlaying]))
      else if cmd = ''s'' \<or> cmd = ''skip'' then (s\<lparr>listening := False\<rparr>, [SkippingEpisode])
      else if cmd = ''h'' \<or> cmd = ''help'' then (s, [HelpText])
      else (s, [UnknownCommand]))"
| "listener_body EOFError s = (s\<lparr>listening := False\<rparr>, [])"
| "listener_body KeyboardInterrupt s = (s\<lparr>should_stop := True, listening := False\<rparr>, [])"

text \<open>
  One input event offered to the listener thread. The thread reads it only if it is still
  in its loop and the loop guard \<^verbatim>\<open>while not self.should_stop\<close> holds; otherwise the
  thread has ended and the line is read by nobody.
\<close>

definition input_listener :: "input_ev \<Rightarrow> replayer \<Rightarrow> replayer \<times> console list" where
  "input_listener ev s =
     (if listening s \<and> \<not> should_stop s then listener_body ev s else (s, []))"

text \<open>The listener handles a batch of input events, one after the other.\<close>

definition deliver :: "input_ev list \<Rightarrow> replayer \<Rightarrow> replayer" where
  "deliver evs s = fold (\<lambda>ev t. fst (input_listener ev t)) evs s"

section \<open>Frame pacing\<close>

text \<open>
  The exceptions that reach \<^verbatim>\<open>run\<close>: from \<^verbatim>\<open>connect\<close>, the three \<^verbatim>\<open>ValueError\<close>s of the
  setup, from indexing, from a dictionary lookup, from the division by \<open>fps\<close>, from
  \<^verbatim>\<open>time.sleep\<close> with a negative or an oversized argument, and from \<^verbatim>\<open>send_action\<close>
  with its message.
\<close>

datatype error =
    ConnectError
  | RobotNotConnected
  | StartGeTotal int int
  | StartGtEnd int int
  | IndexError
  | KeyError
  | ZeroDivisionError
  | NegativeSleep
  | OverflowError
  | SendError string

text \<open>
  \<^verbatim>\<open>sleep_time = max(1 / self.dataset.fps - dt_s, 0)\<close> in \<^verbatim>\<open>replay_single_episode\<close> of
  \<^verbatim>\<open>demo_episode_replay.py\<close> and \<^verbatim>\<open>replay_moving_tape_dataset.py\<close>. Python floats are
  taken as real numbers; the division raises for \<open>fps = 0\<close>.
\<close>

definition sleep_time :: "real \<Rightarrow> real \<Rightarrow> error + real" where
  "sleep_time fps dt_s =
     (if fps = 0 then Inl ZeroDivisionError else Inr (max (1 / fps - dt_s) 0))"

section \<open>Episode range\<close>

text \<open>
  The lines ``Determine episode range'' and ``Validate episode range'' of
  \<^verbatim>\<open>setup_robot_and_dataset\<close>: the result is the pair
  \<^verbatim>\<open>(self.current_episode, self.end_episode)\<close>, or the \<^verbatim>\<open>ValueError\<close> raised.
\<close>

definition episode_range :: "int \<Rightarrow> int \<Rightarrow> int \<Rightarrow> error + int \<times> int" where
  "episode_range total_eps cfg_start cfg_end =
     (let start_ep = cfg_start;
          end_ep = (if cfg_end \<ge> 0 then cfg_end else total_eps - 1)
      in if start_ep \<ge> total_eps then Inl (StartGeTotal start_ep total_eps)
         else let end_ep' = (if end_ep \<ge> total_eps then total_eps - 1 else end_ep)
              in if start_ep > end_ep' then Inl (StartGtEnd start_ep end_ep')
                 else Inr (start_ep, end_ep'))"

text \<open>The end of the range after both adjustments, as the validation uses it.\<close>

definition normalized_end :: "int \<Rightarrow> int \<Rightarrow> int" where
  "normalized_end total_eps cfg_end =
     (let end_ep = (if cfg_end \<ge> 0 then cfg_end else total_eps - 1)
      in if end_ep \<ge> total_eps then total_eps - 1 else end_ep)"

section \<open>The replay controller of \<^verbatim>\<open>replay_all_episodes.py\<close>\<close>

text \<open>
  \<^verbatim>\<open>ReplayAllConfig\<close> with its \<^verbatim>\<open>DatasetReplayConfig\<close>: the fields the controller reads.
\<close>

record replay_cfg =
  cfg_start_episode :: int
  cfg_end_episode :: int
  play_sounds :: bool
  episode_delay :: real
  auto_advance :: bool

text \<open>
  The collaborators outside the repository, as the controller sees them: the robot
  (\<^verbatim>\<open>connect\<close> may raise, \<^verbatim>\<open>is_connected\<close> after it, \<^verbatim>\<open>send_action\<close> may raise with a
  message for a given episode and frame) and the dataset (number of episodes, fps, frames
  per episode, the channel names of an episode and the action vector of a frame).
  \<^verbatim>\<open>is_connected\<close> is a property of the robot that \<^verbatim>\<open>run\<close> reads twice: after
  \<^verbatim>\<open>connect\<close> (\<open>link_up\<close>) and in its \<^verbatim>\<open>finally\<close> block. What the second read returns
  once the episode loop has been entered is up to the robot and may depend on the calls of
  \<^verbatim>\<open>send_action\<close> made so far (\<open>still_connected\<close>, given these calls as (episode, frame)
  pairs): a link that dropped during a send may leave it false. Creating the robot object
  and loading the dataset are taken to succeed, and no signal interrupts the main thread.
\<close>

record world =
  connect_raises :: bool
  link_up :: bool
  num_episodes :: int
  dataset_fps :: real
  num_frames :: "int \<Rightarrow> nat"
  action_names :: "int \<Rightarrow> string list"
  action_array :: "int \<Rightarrow> nat \<Rightarrow> real list"
  send_action :: "int \<Rightarrow> nat \<Rightarrow> string option"
  still_connected :: "(int \<times> nat) list \<Rightarrow> bool"

text \<open>What the main thread does to the robot, the dataset and the clock, in order.\<close>

datatype event =
    Connect
  | LoadDataset
  | LoadEpisode int
  | SendAction int nat "(string \<times> real) list"
  | Sleep real
  | Disconnect

text \<open>
  A call returns a value, raises, or never returns (the main thread polls a flag that no
  further input will change).
\<close>

datatype 'a res = Ret 'a | Raise error | Hang

text \<open>
  The two threads are interleaved at the main thread's reads of the shared flags: before
  each evaluation of a condition on \<^verbatim>\<open>should_stop\<close> or \<^verbatim>\<open>is_paused\<close>, the listener has
  handled some batch of input events, possibly none. A schedule lists these batches in
  order; once it is used up, no input arrives any more.
\<close>

type_synonym sched = "input_ev list list"

definition poll :: "replayer \<Rightarrow> sched \<Rightarrow> replayer \<times> sched" where
  "poll s sch = (case sch of [] \<Rightarrow> (s, []) | b # bs \<Rightarrow> (deliver b s, bs))"

text \<open>
  \<^verbatim>\<open>while self.is_paused and not self.should_stop: time.sleep(0.1)\<close>. With no input left
  and the guard true, the loop never ends.
\<close>

fun pause_wait :: "replayer \<Rightarrow> sched \<Rightarrow> (replayer \<times> sched) option" where
  "pause_wait s [] = (if is_paused s \<and> \<not> should_stop s then None else Some (s, []))"
| "pause_wait s (b # bs) =
     (let s' = deliver b s
      in if is_paused s' \<and> \<not> should_stop s' then pause_wait s' bs else Some (s', bs))"

text \<open>
  \<^verbatim>\<open>action[name] = action_array[i]\<close> for each \<^verbatim>\<open>i, name\<close>: a dictionary in insertion
  order; the index is out of range when the vector is shorter than the names.
\<close>

definition build_action :: "string list \<Rightarrow> real list \<Rightarrow> error + (string \<times> real) list" where
  "build_action names arr =
     (if length arr < length names then Inl IndexError
      else Inr (fold (\<lambda>(name, v) action. AList.update name v action) (zip names arr) []))"

text \<open>
  The frame loop of \<^verbatim>\<open>replay_single_episode\<close>, over \<^verbatim>\<open>range(num_frames)\<close>. The result
  \<open>Ret (b, _, _)\<close> is the function's return value \<open>b\<close>.
\<close>

fun replay_frames ::
  "world \<Rightarrow> int \<Rightarrow> nat list \<Rightarrow> replayer \<Rightarrow> sched \<Rightarrow> event list \<times> (bool \<times> replayer \<times> sched) res"
where
  "replay_frames w e [] s sch = ([], Ret (True, s, sch))"
| "replay_frames w e (f # fs) s sch =
     (case poll s sch of (s1, sch1) \<Rightarrow>
      if should_stop s1 then ([], Ret (False, s1, sch1))
      else
       (case pause_wait s1 sch1 of
          None \<Rightarrow> ([], Hang)
        | Some (s2, sch2) \<Rightarrow>
           (case poll s2 sch2 of (s3, sch3) \<Rightarrow>
            if should_stop s3 then ([], Ret (False, s3, sch3))
            else
             (case build_action (action_names w e) (action_array w e f) of
                Inl err \<Rightarrow> ([], Raise err)
              | Inr action \<Rightarrow>
                 (case send_action w e f of
                    Some msg \<Rightarrow> ([SendAction e f action], Raise (SendError msg))
                  | None \<Rightarrow>
                     (if dataset_fps w = 0
                      then ([SendAction e f action], Raise ZeroDivisionError)
                      else (case replay_frames w e fs s3 sch3 of
                              (tr, r) \<Rightarrow> (SendAction e f action # tr, r))))))))"

definition replay_single_episode ::
  "world \<Rightarrow> int \<Rightarrow> replayer \<Rightarrow> sched \<Rightarrow> event list \<times> (bool \<times> replayer \<times> sched) res"
where
  "replay_single_episode w e s sch =
     (case replay_frames w e [0..<num_frames w e] s sch of (tr, r) \<Rightarrow> (LoadEpisode e # tr, r))"

text \<open>
  \<^verbatim>\<open>while not self.should_stop: time.sleep(0.1); if not self.is_paused: break\<close> in
  \<^verbatim>\<open>run\<close>.
\<close>

function wait_advance :: "replayer \<Rightarrow> sched \<Rightarrow> (replayer \<times> sched) option" where
  "wait_advance s sch =
     (if sch = [] then (if should_stop s \<or> \<not> is_paused s then Some (s, []) else None)
      else
       (case poll s sch of (s1, sch1) \<Rightarrow>
        if should_stop s1 then Some (s1, sch1)
        else
         (case poll s1 sch1 of (s2, sch2) \<Rightarrow>
          if \<not> is_paused s2 then Some (s2, sch2) else wait_advance s2 sch2)))"
  by pat_completeness auto
termination
  by (relation "measure (\<lambda>(s, sch). length sch)") (auto simp: poll_def split: list.splits)

declare wait_advance.simps [simp del]

text \<open>
  The part of the loop body in \<^verbatim>\<open>run\<close> after an episode that returned \<^verbatim>\<open>True\<close>:
  ``Delay between episodes (unless it's the last episode)''. \<^verbatim>\<open>time.sleep\<close> raises
  \<^verbatim>\<open>ValueError\<close> for a negative delay and \<^verbatim>\<open>OverflowError\<close> for a delay that does not
  fit a signed 64-bit count of nanoseconds.
\<close>

definition between_episodes ::
  "replay_cfg \<Rightarrow> int \<Rightarrow> replayer \<Rightarrow> sched \<Rightarrow> event list \<times> (replayer \<times> sched) res"
where
  "between_episodes cfg e s sch =
     (if e < end_episode s then
        (case poll s sch of (s1, sch1) \<Rightarrow>
         if \<not> should_stop s1 then
           (if auto_advance cfg then
              (if episode_delay cfg < 0 then ([], Raise NegativeSleep)
               else if 2 ^ 63 \<le> episode_delay cfg * 1000000000 then ([], Raise OverflowError)
               else ([Sleep (episode_delay cfg)], Ret (s1, sch1)))
            else (case wait_advance s1 sch1 of
                    None \<Rightarrow> ([], Hang)
                  | Some (s2, sch2) \<Rightarrow> ([], Ret (s2, sch2))))
         else ([], Ret (s1, sch1)))
      else ([], Ret (s, sch)))"

text \<open>
  The loop \<^verbatim>\<open>for episode_idx in range(self.current_episode, self.end_episode + 1)\<close> of
  \<^verbatim>\<open>run\<close>, over the list of indices; \<^verbatim>\<open>break\<close> returns.
\<close>

fun episode_loop ::
  "replay_cfg \<Rightarrow> world \<Rightarrow> int list \<Rightarrow> replayer \<Rightarrow> sched \<Rightarrow> event list \<times> (replayer \<times> sched) res"
where
  "episode_loop cfg w [] s sch = ([], Ret (s, sch))"
| "episode_loop cfg w (e # es) s sch =
     (case poll s sch of (s1, sch1) \<Rightarrow>
      if should_stop s1 then ([], Ret (s1, sch1))
      else
       (case replay_single_episode w e s1 sch1 of
          (tr, Hang) \<Rightarrow> (tr, Hang)
        | (tr, Raise err) \<Rightarrow> (tr, Raise err)
        | (tr, Ret (success, s2, sch2)) \<Rightarrow>
           (if \<not> success then (tr, Ret (s2, sch2))
            else
             (case between_episodes cfg e s2 sch2 of
                (tr', Hang) \<Rightarrow> (tr @ tr', Hang)
              | (tr', Raise err) \<Rightarrow> (tr @ tr', Raise err)
              | (tr', Ret (s3, sch3)) \<Rightarrow>
                 (case episode_loop cfg w es s3 sch3 of
                    (tr'', r) \<Rightarrow> (tr @ tr' @ tr'', r))))))"

text \<open>
  \<^verbatim>\<open>setup_robot_and_dataset\<close>: the state is returned also when the function raises,
  since \<^verbatim>\<open>run\<close>'s \<^verbatim>\<open>finally\<close> reads \<^verbatim>\<open>self.robot.is_connected\<close>.
\<close>

definition setup_robot_and_dataset ::
  "replay_cfg \<Rightarrow> world \<Rightarrow> replayer \<Rightarrow> event list \<times> replayer \<times> error option"
where
  "setup_robot_and_dataset cfg w s =
     (let s1 = s\<lparr>robot_connected := link_up w\<rparr> in
      if connect_raises w then ([Connect], s1, Some ConnectError)
      else if \<not> link_up w then ([Connect], s1, Some RobotNotConnected)
      else
        (let s2 = s1\<lparr>total_episodes := num_episodes w\<rparr> in
         (case episode_range (num_episodes w) (cfg_start_episode cfg) (cfg_end_episode cfg) of
            Inl err \<Rightarrow> ([Connect, LoadDataset], s2, Some err)
          | Inr (start_ep, end_ep) \<Rightarrow>
              ([Connect, LoadDataset],
               s2\<lparr>current_episode := start_ep, end_episode := end_ep\<rparr>, None))))"

text \<open>
  \<^verbatim>\<open>__init__\<close>. The attribute \<^verbatim>\<open>end_episode\<close> is created by the setup; no read comes
  before it.
\<close>

definition init_replayer :: "replay_cfg \<Rightarrow> replayer" where
  "init_replayer cfg =
     \<lparr>current_episode = cfg_start_episode cfg, total_episodes = 0, end_episode = 0,
      is_paused = False, should_stop = False, robot_connected = False, listening = False\<rparr>"

text \<open>The calls of \<^verbatim>\<open>send_action\<close> in a trace, as (episode, frame) pairs in order.\<close>

definition sent :: "event \<Rightarrow> (int \<times> nat) option" where
  "sent ev = (case ev of SendAction e f a \<Rightarrow> Some (e, f) | _ \<Rightarrow> None)"

definition sends :: "event list \<Rightarrow> (int \<times> nat) list" where
  "sends tr = List.map_filter sent tr"

text \<open>The same calls with the actions they carry.\<close>

definition send_calls :: "event list \<Rightarrow> event list" where
  "send_calls tr = filter (\<lambda>ev. sent ev \<noteq> None) tr"

text \<open>
  The \<^verbatim>\<open>finally\<close> block of \<^verbatim>\<open>run\<close>, for a replayer whose \<open>robot_connected\<close> is what
  \<^verbatim>\<open>is_connected\<close> returns at that moment.
\<close>

definition cleanup :: "replayer \<Rightarrow> event list" where
  "cleanup s = (if robot_connected s then [Disconnect] else [])"

text \<open>
  \<^verbatim>\<open>run\<close> returns nothing; its outcome is the final message: ``All episodes completed
  successfully! Replayed episodes a to b'', ``Replay stopped by user.'' or ``Error during
  replay: e''. \<open>None\<close> is a run that never ends.
\<close>

datatype outcome = Completed int int | StoppedByUser | Failed error

text \<open>
  The end of \<^verbatim>\<open>run\<close>, given how the episode loop ended: the final message, the
  \<^verbatim>\<open>except\<close> clause and the \<^verbatim>\<open>finally\<close> block. The test \<^verbatim>\<open>if not self.should_stop\<close>
  after the loop is one more read of the flag, and the \<^verbatim>\<open>finally\<close> block reads
  \<^verbatim>\<open>self.robot.is_connected\<close> anew, after the calls of \<^verbatim>\<open>send_action\<close> in the trace.
\<close>

definition conclude ::
  "world \<Rightarrow> replayer \<Rightarrow> event list \<times> (replayer \<times> sched) res \<Rightarrow> event list \<times> outcome option"
where
  "conclude w s0 lr =
     (case lr of
        (tr, Hang) \<Rightarrow> (tr, None)
      | (tr, Raise err) \<Rightarrow>
         (tr @ cleanup (s0\<lparr>robot_connected := still_connected w (sends tr)\<rparr>),
          Some (Failed err))
      | (tr, Ret (s1, sch1)) \<Rightarrow>
         (case poll s1 sch1 of (s2, sch2) \<Rightarrow>
            (tr @ cleanup (s2\<lparr>robot_connected := still_connected w (sends tr)\<rparr>),
             Some (if \<not> should_stop s2
                   then Completed (current_episode s2) (end_episode s2)
                   else StoppedByUser))))"

definition run :: "replay_cfg \<Rightarrow> world \<Rightarrow> sched \<Rightarrow> event list \<times> outcome option" where
  "run cfg w sch =
     (case setup_robot_and_dataset cfg w (init_replayer cfg) of
        (tr0, s0, Some err) \<Rightarrow> (tr0 @ cleanup s0, Some (Failed err))
      | (tr0, s0, None) \<Rightarrow>
         (case conclude w s0
                 (episode_loop cfg w [current_episode s0..end_episode s0]
                    (s0\<lparr>listening := True\<rparr>) sch) of
            (tr, out) \<Rightarrow> (tr0 @ tr, out)))"

section \<open>The real-robot replayer: reset to home\<close>

text \<open>
  \<^verbatim>\<open>RealRobotEpisodeReplayer\<close> of \<^verbatim>\<open>replay_with_real_robot.py\<close> has the same flags
  and the same threads; its state is kept in the same record (the fields
  \<open>total_episodes\<close> and \<open>end_episode\<close> are not used). Its listener has one more
  command, \<^verbatim>\<open>r\<close>, whose handler calls \<^verbatim>\<open>self.reset_robot()\<close> on the listener thread,
  and \<^verbatim>\<open>reset_robot\<close> calls \<^verbatim>\<open>self.robot.send_action\<close>, the function the main thread
  calls for every frame. Neither caller takes a lock. A call of \<^verbatim>\<open>send_action\<close> takes
  time, so it is recorded by two events, its start and its return (or raise), each with
  the thread that makes the call.
\<close>

datatype thread = MainThread | ListenerThread

datatype rr_event =
    SendBegin thread "(string \<times> real) list"
  | SendDone thread
  | Asleep thread real

record rr_world = world +
  home_raises :: bool

text \<open>The dictionary \<^verbatim>\<open>home_action\<close> of \<^verbatim>\<open>reset_robot\<close>.\<close>

definition home_action :: "(string \<times> real) list" where
  "home_action =
     [(''left_shoulder_pan.pos'', 0), (''left_shoulder_lift.pos'', - 90),
      (''left_elbow_flex.pos'', 90), (''left_wrist_flex.pos'', 0),
      (''left_wrist_roll.pos'', 0), (''left_gripper.pos'', 0),
      (''right_shoulder_pan.pos'', 0), (''right_shoulder_lift.pos'', - 90),
      (''right_elbow_flex.pos'', 90), (''right_wrist_flex.pos'', 0),
      (''right_wrist_roll.pos'', 0), (''right_gripper.pos'', 0)]"

text \<open>
  \<^verbatim>\<open>reset_robot\<close>, run by thread \<open>t\<close>: send the home position and, unless that raised,
  sleep two seconds; an exception is caught and reported.
\<close>

definition reset_robot :: "rr_world \<Rightarrow> thread \<Rightarrow> rr_event list \<times> console list" where
  "reset_robot w t =
     (if home_raises w
      then ([SendBegin t home_action, SendDone t], [MovingHome, ResetError])
      else ([SendBegin t home_action, SendDone t, Asleep t 2], [MovingHome, ResetDone]))"

text \<open>The body of the listener's loop in \<^verbatim>\<open>replay_with_real_robot.py\<close>.\<close>

fun rr_listener_body ::
  "rr_world \<Rightarrow> input_ev \<Rightarrow> replayer \<Rightarrow> replayer \<times> rr_event list \<times> console list"
where
  "rr_listener_body w (Line l) s =
     (let cmd = lower (strip l) in
      if cmd = ''q'' \<or> cmd = ''quit'' then (s\<lparr>should_stop := True\<rparr>, [], [StoppingReplay])
      else if cmd = ''p'' \<or> cmd = ''pause'' then
        (s\<lparr>is_paused := \<not> is_paused s\<rparr>, [],
         [if \<not> is_paused s then ReplayPaused else ReplayResumed])
      else if cmd = ''n'' \<or> cmd = ''next'' then
        (if is_paused s then (s\<lparr>is_paused := False\<rparr>, [], [MovingToNext])
         else (s, [], [AlreadyPlaying]))
      else if cmd = ''s'' \<or> cmd = ''skip'' then
        (s\<lparr>listening := False\<rparr>, [], [SkippingEpisode])
      else if cmd = ''h'' \<or> cmd = ''help'' then (s, [], [HelpText])
      else if cmd = ''r'' \<or> cmd = ''reset'' then
        (case reset_robot w ListenerThread of (tr, out) \<Rightarrow> (s, tr, ResettingRobot # out))
      else (s, [], [UnknownCommand]))"
| "rr_listener_body w EOFError s = (s\<lparr>listening := False\<rparr>, [], [])"
| "rr_listener_body w KeyboardInterrupt s = (s\<lparr>should_stop := True, listening := False\<rparr>, [], [])"

definition rr_input_listener ::
  "rr_world \<Rightarrow> input_ev \<Rightarrow> replayer \<Rightarrow> replayer \<times> rr_event list \<times> console list"
where
  "rr_input_listener w ev s =
     (if listening s \<and> \<not> should_stop s then rr_listener_body w ev s else (s, [], []))"

fun rr_deliver :: "rr_world \<Rightarrow> input_ev list \<Rightarrow> replayer \<Rightarrow> rr_event list \<times> replayer" where
  "rr_deliver w [] s = ([], s)"
| "rr_deliver w (ev # evs) s =
     (case rr_input_listener w ev s of (s1, tr1, out) \<Rightarrow>
        (case rr_deliver w evs s1 of (tr2, s2) \<Rightarrow> (tr1 @ tr2, s2)))"

definition rr_poll :: "rr_world \<Rightarrow> replayer \<Rightarrow> sched \<Rightarrow> rr_event list \<times> replayer \<times> sched" where
  "rr_poll w s sch =
     (case sch of
        [] \<Rightarrow> ([], s, [])
      | b # bs \<Rightarrow> (case rr_deliver w b s of (tr, s') \<Rightarrow> (tr, s', bs)))"

fun rr_pause_wait ::
  "rr_world \<Rightarrow> replayer \<Rightarrow> sched \<Rightarrow> rr_event list \<times> (replayer \<times> sched) option"
where
  "rr_pause_wait w s [] = ([], if is_paused s \<and> \<not> should_stop s then None else Some (s, []))"
| "rr_pause_wait w s (b # bs) =
     (case rr_deliver w b s of (tr, s') \<Rightarrow>
        if is_paused s' \<and> \<not> should_stop s'
        then (case rr_pause_wait w s' bs of (tr', r) \<Rightarrow> (tr @ tr', r))
        else (tr, Some (s', bs)))"

text \<open>
  The keys that the progress line, printed for every tenth frame, reads from the action;
  a missing key raises \<^verbatim>\<open>KeyError\<close>.
\<close>

definition progress_keys :: "string list" where
  "progress_keys =
     [''left_shoulder_pan.pos'', ''left_shoulder_lift.pos'', ''left_elbow_flex.pos'',
      ''right_shoulder_pan.pos'', ''right_shoulder_lift.pos'', ''right_elbow_flex.pos'']"

text \<open>
  The frame loop of \<^verbatim>\<open>replay_single_episode\<close> in \<^verbatim>\<open>replay_with_real_robot.py\<close>. The
  schedule has one more batch per frame: what the listener handles while the main
  thread's \<^verbatim>\<open>send_action\<close> is in flight. An exception of \<^verbatim>\<open>send_action\<close> is caught and
  the function returns \<^verbatim>\<open>False\<close>.
\<close>

fun rr_replay_frames ::
  "rr_world \<Rightarrow> int \<Rightarrow> nat list \<Rightarrow> replayer \<Rightarrow> sched \<Rightarrow>
     rr_event list \<times> (bool \<times> replayer \<times> sched) res"
where
  "rr_replay_frames w e [] s sch = ([], Ret (True, s, sch))"
| "rr_replay_frames w e (f # fs) s sch =
     (case rr_poll w s sch of (tr1, s1, sch1) \<Rightarrow>
      if should_stop s1 then (tr1, Ret (False, s1, sch1))
      else
       (case rr_pause_wait w s1 sch1 of
          (tr2, None) \<Rightarrow> (tr1 @ tr2, Hang)
        | (tr2, Some (s2, sch2)) \<Rightarrow>
           (case rr_poll w s2 sch2 of (tr3, s3, sch3) \<Rightarrow>
            if should_stop s3 then (tr1 @ tr2 @ tr3, Ret (False, s3, sch3))
            else
             (case build_action (action_names w e) (action_array w e f) of
                Inl err \<Rightarrow> (tr1 @ tr2 @ tr3, Raise err)
              | Inr action \<Rightarrow>
                 (case rr_poll w s3 sch3 of (tr4, s4, sch4) \<Rightarrow>
                  (let tr = tr1 @ tr2 @ tr3 @ [SendBegin MainThread action] @ tr4
                              @ [SendDone MainThread]
                   in case send_action w e f of
                        Some msg \<Rightarrow> (tr, Ret (False, s4, sch4))
                      | None \<Rightarrow>
                         (if f mod 10 = 0 \<and> \<not> set progress_keys \<subseteq> fst ` set action
                          then (tr, Raise KeyError)
                          else if dataset_fps w = 0 then (tr, Raise ZeroDivisionError)
                          else (case rr_replay_frames w e fs s4 sch4 of
                                  (tr', r) \<Rightarrow> (tr @ tr', r)))))))))"

text \<open>
  A trace is serialized when no call of \<^verbatim>\<open>send_action\<close> starts while another one is in
  flight; \<open>n\<close> counts the calls in flight.
\<close>

fun serialized_from :: "nat \<Rightarrow> rr_event list \<Rightarrow> bool" where
  "serialized_from n [] = True"
| "serialized_from n (SendBegin t a # tr) = (n = 0 \<and> serialized_from (Suc n) tr)"
| "serialized_from n (SendDone t # tr) = serialized_from (n - 1) tr"
| "serialized_from n (Asleep t d # tr) = serialized_from n tr"

definition serialized :: "rr_event list \<Rightarrow> bool" where
  "serialized tr = serialized_from 0 tr"

text \<open>The starts and returns of the calls in a trace, without the actions.\<close>

datatype phase = Starts | Returns

fun call_order :: "rr_event list \<Rightarrow> (thread \<times> phase) list" where
  "call_order [] = []"
| "call_order (SendBegin t a # tr) = (t, Starts) # call_order tr"
| "call_order (SendDone t # tr) = (t, Returns) # call_order tr"
| "call_order (Asleep t d # tr) = call_order tr"

section \<open>Notions used in the statements\<close>

text \<open>The commands of the help texts, after \<^verbatim>\<open>strip().lower()\<close>.\<close>

definition recognized :: "string set" where
  "recognized =
     {''h'', ''help'', ''p'', ''pause'', ''n'', ''next'', ''s'', ''skip'',
      ''q'', ''quit'', ''r'', ''reset''}"

text \<open>A schedule in which the operator types nothing.\<close>

definition quiet :: "sched \<Rightarrow> bool" where
  "quiet sch = (concat sch = [])"

text \<open>
  The state \<open>s'\<close> and the schedule \<open>sch'\<close> come from \<open>s\<close> and \<open>sch\<close> by letting the
  listener handle the first \<open>k\<close> batches, and by nothing else.
\<close>

definition listener_only :: "replayer \<Rightarrow> sched \<Rightarrow> replayer \<Rightarrow> sched \<Rightarrow> bool" where
  "listener_only s sch s' sch' =
     (\<exists>k. s' = deliver (concat (take k sch)) s \<and> sch' = drop k sch)"

text \<open>The dictionary sent for a frame, when it can be built.\<close>

definition action_of :: "'a world_scheme \<Rightarrow> int \<Rightarrow> nat \<Rightarrow> (string \<times> real) list" where
  "action_of w e f =
     (case build_action (action_names w e) (action_array w e f) of
        Inr action \<Rightarrow> action
      | Inl err \<Rightarrow> [])"

text \<open>
  What the main thread does for one episode when nothing stops it: load the episode, send
  every frame in order, and sleep before the next episode if there is one.
\<close>

definition episode_events :: "replay_cfg \<Rightarrow> world \<Rightarrow> int \<Rightarrow> int \<Rightarrow> event list" where
  "episode_events cfg w end_ep e =
     LoadEpisode e # map (\<lambda>f. SendAction e f (action_of w e f)) [0..<num_frames w e]
       @ (if e < end_ep then [Sleep (episode_delay cfg)] else [])"

section \<open>Concrete inputs\<close>

text \<open>
  Scenario A of the specification: three episodes of five frames, \<open>fps = 10\<close>, automatic
  advance with no delay, a robot that connects, accepts every action and stays connected.
  The actions have two channels.
\<close>

definition scenario_cfg :: replay_cfg where
  "scenario_cfg =
     \<lparr>cfg_start_episode = 0, cfg_end_episode = - 1, play_sounds = False,
      episode_delay = 0, auto_advance = True\<rparr>"

definition scenario_world :: world where
  "scenario_world =
     \<lparr>connect_raises = False, link_up = True, num_episodes = 3, dataset_fps = 10,
      num_frames = (\<lambda>e. 5),
      action_names = (\<lambda>e. [''shoulder_pan.pos'', ''gripper.pos'']),
      action_array = (\<lambda>e f. [real f, real_of_int e]),
      send_action = (\<lambda>e f. None),
      still_connected = (\<lambda>calls. True)\<rparr>"

text \<open>The replayer after a successful setup of scenario A, with the listener started.\<close>

definition scenario_state :: replayer where
  "scenario_state =
     \<lparr>current_episode = 0, total_episodes = 3, end_episode = 2,
      is_paused = False, should_stop = False, robot_connected = True, listening = True\<rparr>"

text \<open>Scenario A with a robot that raises \<open>msg\<close> on frame \<open>f\<close> of episode \<open>e\<close>.\<close>

definition failing_world :: "int \<Rightarrow> nat \<Rightarrow> string \<Rightarrow> world" where
  "failing_world e f msg =
     scenario_world\<lparr>send_action := (\<lambda>e' f'. if e' = e \<and> f' = f then Some msg else None)\<rparr>"

text \<open>
  Scenario A on the two-arm robot: twelve channels, named as in \<^verbatim>\<open>home_action\<close>.
\<close>

definition rr_scenario_world :: rr_world where
  "rr_scenario_world =
     \<lparr>connect_raises = False, link_up = True, num_episodes = 3, dataset_fps = 10,
      num_frames = (\<lambda>e. 5),
      action_names = (\<lambda>e. map fst home_action),
      action_array = (\<lambda>e f. replicate 12 (real f)),
      send_action = (\<lambda>e f. None),
      still_connected = (\<lambda>calls. True),
      home_raises = False\<rparr>"
section \<open>Properties of the listener\<close>

lemma listener_body_keeps_stop: "should_stop s \<Longrightarrow> should_stop (fst (listener_body ev s))"
  by (cases ev) (simp_all add: Let_def)

lemma input_listener_stopped: "should_stop s \<Longrightarrow> input_listener ev s = (s, [])"
  by (simp add: input_listener_def)

lemma deliver_stopped: "should_stop s \<Longrightarrow> deliver evs s = s"
  by (induction evs) (simp_all add: deliver_def input_listener_stopped)

lemma poll_stopped: "should_stop s \<Longrightarrow> poll s sch = (s, tl sch)"
  by (cases sch) (simp_all add: poll_def deliver_stopped)

lemma pause_wait_stopped: "should_stop s \<Longrightarrow> pause_wait s sch = Some (s, tl sch)"
  by (cases sch) (simp_all add: deliver_stopped)

lemma wait_advance_stopped: "should_stop s \<Longrightarrow> wait_advance s sch = Some (s, tl sch)"
  by (subst wait_advance.simps) (simp add: poll_stopped)

lemma replay_frames_stopped:
  "should_stop s \<Longrightarrow>
   replay_frames w e fs s sch = ([], Ret (fs = [], s, if fs = [] then sch else tl sch))"
  by (cases fs) (simp_all add: poll_stopped)

lemma between_episodes_stopped:
  "should_stop s \<Longrightarrow>
   between_episodes cfg e s sch = ([], Ret (s, if e < end_episode s then tl sch else sch))"
  by (simp add: between_episodes_def poll_stopped)

lemma episode_loop_stopped:
  "should_stop s \<Longrightarrow>
   episode_loop cfg w es s sch = ([], Ret (s, if es = [] then sch else tl sch))"
  by (cases es) (simp_all add: poll_stopped)

subsection \<open>The main thread leaves the shared flags to the listener\<close>

lemma deliver_append: "deliver (xs @ ys) s = deliver ys (deliver xs s)"
  by (simp add: deliver_def)

lemma deliver_Nil: "deliver [] s = s"
  by (simp add: deliver_def)

lemma listener_only_refl: "listener_only s sch s sch"
  unfolding listener_only_def by (rule exI [of _ 0]) (simp add: deliver_Nil)

lemma listener_only_trans:
  assumes "listener_only s sch s1 sch1" and "listener_only s1 sch1 s2 sch2"
  shows "listener_only s sch s2 sch2"
proof -
  from assms(1) obtain k where k: "s1 = deliver (concat (take k sch)) s" "sch1 = drop k sch"
    unfolding listener_only_def by blast
  from assms(2) obtain j where j: "s2 = deliver (concat (take j sch1)) s1" "sch2 = drop j sch1"
    unfolding listener_only_def by blast
  have "take (k + j) sch = take k sch @ take j (drop k sch)"
    by (simp add: take_add)
  with k j have "s2 = deliver (concat (take (k + j) sch)) s"
    by (simp add: deliver_append)
  moreover from k j have "sch2 = drop (k + j) sch"
    by (simp add: add.commute)
  ultimately show ?thesis
    unfolding listener_only_def by blast
qed

lemma listener_only_step: "listener_only s (b # bs) (deliver b s) bs"
  unfolding listener_only_def by (rule exI [of _ 1]) simp

lemma poll_listener_only: "poll s sch = (s', sch') \<Longrightarrow> listener_only s sch s' sch'"
  by (cases sch) (auto simp: poll_def listener_only_refl listener_only_step)

lemma pause_wait_listener_only:
  "pause_wait s sch = Some (s', sch') \<Longrightarrow> listener_only s sch s' sch'"
proof (induction sch arbitrary: s)
  case Nil
  then show ?case by (auto simp: listener_only_refl split: if_splits)
next
  case (Cons b bs)
  show ?case
  proof (cases "is_paused (deliver b s) \<and> \<not> should_stop (deliver b s)")
    case True
    with Cons.prems have "pause_wait (deliver b s) bs = Some (s', sch')"
      by (simp add: Let_def)
    then have "listener_only (deliver b s) bs s' sch'" by (rule Cons.IH)
    with listener_only_step show ?thesis by (rule listener_only_trans)
  next
    case False
    with Cons.prems have "s' = deliver b s" "sch' = bs"
      by (auto simp: Let_def)
    then show ?thesis by (simp add: listener_only_step)
  qed
qed

lemma wait_advance_listener_only:
  "wait_advance s sch = Some (s', sch') \<Longrightarrow> listener_only s sch s' sch'"
proof (induction s sch rule: wait_advance.induct)
  case (1 s sch)
  show ?case
  proof (cases "sch = []")
    case True
    with "1.prems" show ?thesis
      by (auto simp: wait_advance.simps [of s "[]"] listener_only_refl split: if_splits)
  next
    case False
    obtain s1 sch1 where p1: "poll s sch = (s1, sch1)" by (cases "poll s sch")
    obtain s2 sch2 where p2: "poll s1 sch1 = (s2, sch2)" by (cases "poll s1 sch1")
    note l1 = poll_listener_only [OF p1]
    note l2 = listener_only_trans [OF l1 poll_listener_only [OF p2]]
    show ?thesis
    proof (cases "should_stop s1")
      case True
      with False p1 "1.prems" l1 show ?thesis
        by (simp add: wait_advance.simps [of s sch])
    next
      case ns: False
      show ?thesis
      proof (cases "is_paused s2")
        case True
        with False ns p1 p2 "1.prems" have "wait_advance s2 sch2 = Some (s', sch')"
          by (simp add: wait_advance.simps [of s sch])
        with "1.IH" [OF False p1 [symmetric] ns p2 [symmetric]] True
        have "listener_only s2 sch2 s' sch'" by simp
        with l2 show ?thesis by (rule listener_only_trans)
      next
        case np: False
        with False ns p1 p2 "1.prems" l2 show ?thesis
          by (simp add: wait_advance.simps [of s sch])
      qed
    qed
  qed
qed

lemma replay_frames_listener_only:
  "replay_frames w e fs s sch = (tr, Ret (b, s', sch')) \<Longrightarrow> listener_only s sch s' sch'"
proof (induction fs arbitrary: s sch tr)
  case Nil
  then show ?case by (simp add: listener_only_refl)
next
  case (Cons f fs)
  obtain s1 sch1 where p1: "poll s sch = (s1, sch1)" by (cases "poll s sch")
  note l1 = poll_listener_only [OF p1]
  show ?case
  proof (cases "should_stop s1")
    case True
    with Cons.prems p1 l1 show ?thesis by simp
  next
    case ns1: False
    with Cons.prems p1 obtain s2 sch2 where pw: "pause_wait s1 sch1 = Some (s2, sch2)"
      by (cases "pause_wait s1 sch1") auto
    obtain s3 sch3 where p3: "poll s2 sch2 = (s3, sch3)" by (cases "poll s2 sch2")
    have l3: "listener_only s sch s3 sch3"
      using l1 pause_wait_listener_only [OF pw] poll_listener_only [OF p3]
      by (blast intro: listener_only_trans)
    show ?thesis
    proof (cases "should_stop s3")
      case True
      with Cons.prems p1 ns1 pw p3 l3 show ?thesis by simp
    next
      case ns3: False
      with Cons.prems p1 ns1 pw p3
      obtain tr' where "replay_frames w e fs s3 sch3 = (tr', Ret (b, s', sch'))"
        by (auto split: sum.splits option.splits if_splits prod.splits)
      then have "listener_only s3 sch3 s' sch'" by (rule Cons.IH)
      with l3 show ?thesis by (rule listener_only_trans)
    qed
  qed
qed

lemma between_episodes_listener_only:
  "between_episodes cfg e s sch = (tr, Ret (s', sch')) \<Longrightarrow> listener_only s sch s' sch'"
proof (cases "e < end_episode s")
  case False
  assume "between_episodes cfg e s sch = (tr, Ret (s', sch'))"
  with False show ?thesis by (simp add: between_episodes_def listener_only_refl)
next
  case True
  assume be: "between_episodes cfg e s sch = (tr, Ret (s', sch'))"
  obtain s1 sch1 where p1: "poll s sch = (s1, sch1)" by (cases "poll s sch")
  note l1 = poll_listener_only [OF p1]
  show ?thesis
  proof (cases "should_stop s1 \<or> auto_advance cfg")
    case True
    with be \<open>e < end_episode s\<close> p1 l1 show ?thesis
      by (auto simp: between_episodes_def split: if_splits)
  next
    case False
    with be \<open>e < end_episode s\<close> p1 have "wait_advance s1 sch1 = Some (s', sch')"
      by (auto simp: between_episodes_def split: option.splits)
    then have "listener_only s1 sch1 s' sch'" by (rule wait_advance_listener_only)
    with l1 show ?thesis by (rule listener_only_trans)
  qed
qed

lemma episode_loop_listener_only:
  "episode_loop cfg w es s sch = (tr, Ret (s', sch')) \<Longrightarrow> listener_only s sch s' sch'"
proof (induction es arbitrary: s sch tr)
  case Nil
  then show ?case by (simp add: listener_only_refl)
next
  case (Cons e es)
  obtain s1 sch1 where p1: "poll s sch = (s1, sch1)" by (cases "poll s sch")
  note l1 = poll_listener_only [OF p1]
  show ?case
  proof (cases "should_stop s1")
    case True
    with Cons.prems p1 l1 show ?thesis by simp
  next
    case ns1: False
    obtain tr1 r1 where rf: "replay_frames w e [0..<num_frames w e] s1 sch1 = (tr1, r1)"
      by (cases "replay_frames w e [0..<num_frames w e] s1 sch1")
    with Cons.prems p1 ns1 obtain b s2 sch2 where r1: "r1 = Ret (b, s2, sch2)"
      by (cases r1) (auto simp: replay_single_episode_def)
    from rf r1 have l2: "listener_only s1 sch1 s2 sch2"
      by (auto intro: replay_frames_listener_only)
    show ?thesis
    proof (cases b)
      case False
      with Cons.prems p1 ns1 rf r1 have "s' = s2" "sch' = sch2"
        by (auto simp: replay_single_episode_def)
      with l1 l2 show ?thesis by (blast intro: listener_only_trans)
    next
      case True
      obtain tr2 r2 where be: "between_episodes cfg e s2 sch2 = (tr2, r2)"
        by (cases "between_episodes cfg e s2 sch2")
      with Cons.prems p1 ns1 rf r1 True obtain s3 sch3 where r2: "r2 = Ret (s3, sch3)"
        by (cases r2) (auto simp: replay_single_episode_def)
      from be r2 have l3: "listener_only s2 sch2 s3 sch3"
        by (auto intro: between_episodes_listener_only)
      from Cons.prems p1 ns1 rf r1 True be r2
      obtain tr3 where "episode_loop cfg w es s3 sch3 = (tr3, Ret (s', sch'))"
        by (auto simp: replay_single_episode_def split: prod.splits)
      then have "listener_only s3 sch3 s' sch'" by (rule Cons.IH)
      with l1 l2 l3 show ?thesis by (blast intro: listener_only_trans)
    qed
  qed
qed


subsection \<open>One iteration of the frame loop and of the episode loop\<close>

lemma replay_frames_Cons_cases:
  assumes "replay_frames w e (f # fs) s sch = (tr, r)"
  obtains
    (stopped) s' sch' where "tr = []" "r = Ret (False, s', sch')" "should_stop s'"
  | (hang) "tr = []" "r = Hang"
  | (index) "tr = []" "r = Raise IndexError"
  | (send_failed) action msg where
      "send_action w e f = Some msg" "tr = [SendAction e f action]" "r = Raise (SendError msg)"
      "build_action (action_names w e) (action_array w e f) = Inr action"
  | (zero_div) action where
      "send_action w e f = None" "tr = [SendAction e f action]" "r = Raise ZeroDivisionError"
      "build_action (action_names w e) (action_array w e f) = Inr action"
  | (continue) action s3 sch3 tr' where
      "send_action w e f = None" "replay_frames w e fs s3 sch3 = (tr', r)"
      "tr = SendAction e f action # tr'" "\<not> should_stop s3"
      "build_action (action_names w e) (action_array w e f) = Inr action"
proof -
  obtain s1 sch1 where p1: "poll s sch = (s1, sch1)" by (cases "poll s sch")
  show thesis
  proof (cases "should_stop s1")
    case True
    with assms p1 show thesis by (auto intro: stopped)
  next
    case ns1: False
    show thesis
    proof (cases "pause_wait s1 sch1")
      case None
      with assms p1 ns1 show thesis by (auto intro: hang)
    next
      case (Some p)
      obtain s2 sch2 where p: "p = (s2, sch2)" by (cases p)
      obtain s3 sch3 where p3: "poll s2 sch2 = (s3, sch3)" by (cases "poll s2 sch2")
      show thesis
      proof (cases "should_stop s3")
        case True
        with assms p1 ns1 Some p p3 show thesis by (auto intro: stopped)
      next
        case ns3: False
        show thesis
        proof (cases "build_action (action_names w e) (action_array w e f)")
          case (Inl err)
          then have "err = IndexError" by (auto simp: build_action_def split: if_splits)
          with assms p1 ns1 Some p p3 ns3 Inl show thesis by (auto intro: index)
        next
          case (Inr action)
          show thesis
          proof (cases "send_action w e f")
            case (Some msg)
            with assms p1 ns1 \<open>pause_wait s1 sch1 = Some p\<close> p p3 ns3 Inr show thesis
              by (auto intro: send_failed)
          next
            case None
            show thesis
            proof (cases "dataset_fps w = 0")
              case True
              with assms p1 ns1 \<open>pause_wait s1 sch1 = Some p\<close> p p3 ns3 Inr None show thesis
                by (auto intro: zero_div)
            next
              case False
              obtain tr' r' where rf: "replay_frames w e fs s3 sch3 = (tr', r')"
                by (cases "replay_frames w e fs s3 sch3")
              with assms p1 ns1 \<open>pause_wait s1 sch1 = Some p\<close> p p3 ns3 Inr None False
              have "tr = SendAction e f action # tr'" "r = r'" by auto
              with rf None ns3 Inr show thesis by (auto intro: continue)
            qed
          qed
        qed
      qed
    qed
  qed
qed

lemma replay_frames_events:
  "replay_frames w e fs s sch = (tr, r) \<Longrightarrow> ev \<in> set tr \<Longrightarrow>
   \<exists>f a. ev = SendAction e f a \<and> f \<in> set fs
     \<and> build_action (action_names w e) (action_array w e f) = Inr a"
proof (induction fs arbitrary: s sch tr)
  case Nil
  then show ?case by simp
next
  case (Cons f fs)
  from Cons.prems(1) show ?case
  proof (cases rule: replay_frames_Cons_cases)
    case (continue action s3 sch3 tr')
    show ?thesis
    proof (cases "ev = SendAction e f action")
      case True
      with continue(5) show ?thesis by auto
    next
      case False
      with continue Cons.prems(2) have "ev \<in> set tr'" by simp
      with Cons.IH [OF continue(2)] show ?thesis by auto
    qed
  qed (use Cons.prems(2) in auto)
qed

lemma replay_frames_failed_send:
  "replay_frames w e fs s sch = (tr, r) \<Longrightarrow> SendAction e' f a \<in> set tr \<Longrightarrow>
   send_action w e' f = Some msg \<Longrightarrow>
   r = Raise (SendError msg) \<and> (\<exists>tr'. tr = tr' @ [SendAction e' f a])"
proof (induction fs arbitrary: s sch tr)
  case Nil
  then show ?case by simp
next
  case (Cons f0 fs)
  from replay_frames_events [OF Cons.prems(1,2)] have e': "e' = e"
    by auto
  from Cons.prems(1) show ?case
  proof (cases rule: replay_frames_Cons_cases)
    case (continue action s3 sch3 tr')
    with Cons.prems(2,3) e' have "SendAction e' f a \<in> set tr'" by auto
    from Cons.IH [OF continue(2) this Cons.prems(3)] continue(3) show ?thesis
      by auto
  qed (use Cons.prems(2,3) e' in auto)
qed


lemma between_episodes_events:
  "between_episodes cfg e s sch = (tr, r) \<Longrightarrow> ev \<in> set tr \<Longrightarrow> ev = Sleep (episode_delay cfg)"
  by (auto simp: between_episodes_def split: if_splits prod.splits option.splits)

lemma episode_loop_Cons_cases:
  assumes "episode_loop cfg w (e # es) s sch = (tr, r)"
  obtains
    (stopped) s1 sch1 where "tr = []" "r = Ret (s1, sch1)" "should_stop s1"
  | (hang) tr1 s1 sch1 where
      "replay_frames w e [0..<num_frames w e] s1 sch1 = (tr1, Hang)"
      "tr = LoadEpisode e # tr1" "r = Hang"
  | (raised) tr1 s1 sch1 err where
      "replay_frames w e [0..<num_frames w e] s1 sch1 = (tr1, Raise err)"
      "tr = LoadEpisode e # tr1" "r = Raise err"
  | (interrupted) tr1 s1 sch1 s2 sch2 where
      "replay_frames w e [0..<num_frames w e] s1 sch1 = (tr1, Ret (False, s2, sch2))"
      "tr = LoadEpisode e # tr1" "r = Ret (s2, sch2)"
  | (delay_failed) tr1 s1 sch1 s2 sch2 tr2 r2 where
      "replay_frames w e [0..<num_frames w e] s1 sch1 = (tr1, Ret (True, s2, sch2))"
      "between_episodes cfg e s2 sch2 = (tr2, r2)" "r2 = Hang \<or> (\<exists>err. r2 = Raise err)"
      "tr = LoadEpisode e # tr1 @ tr2" "r = Hang \<or> (\<exists>err. r = Raise err)"
      "\<forall>msg. r \<noteq> Raise (SendError msg)"
  | (continue) tr1 s1 sch1 s2 sch2 tr2 s3 sch3 tr3 where
      "replay_frames w e [0..<num_frames w e] s1 sch1 = (tr1, Ret (True, s2, sch2))"
      "between_episodes cfg e s2 sch2 = (tr2, Ret (s3, sch3))"
      "episode_loop cfg w es s3 sch3 = (tr3, r)"
      "tr = LoadEpisode e # tr1 @ tr2 @ tr3"
proof -
  obtain s1 sch1 where p1: "poll s sch = (s1, sch1)" by (cases "poll s sch")
  show thesis
  proof (cases "should_stop s1")
    case True
    with assms p1 show thesis by (auto intro: stopped)
  next
    case ns1: False
    obtain tr1 r1 where rf: "replay_frames w e [0..<num_frames w e] s1 sch1 = (tr1, r1)"
      by (cases "replay_frames w e [0..<num_frames w e] s1 sch1")
    show thesis
    proof (cases r1)
      case Hang
      with assms p1 ns1 rf show thesis
        by (auto simp: replay_single_episode_def intro: hang)
    next
      case (Raise err)
      with assms p1 ns1 rf show thesis
        by (auto simp: replay_single_episode_def intro: raised)
    next
      case (Ret x)
      obtain b s2 sch2 where x: "x = (b, s2, sch2)" by (cases x)
      show thesis
      proof (cases b)
        case False
        with assms p1 ns1 rf Ret x show thesis
          by (auto simp: replay_single_episode_def intro: interrupted)
      next
        case True
        obtain tr2 r2 where be: "between_episodes cfg e s2 sch2 = (tr2, r2)"
          by (cases "between_episodes cfg e s2 sch2")
        have nosend: "\<forall>msg. r2 \<noteq> Raise (SendError msg)"
          using be by (auto simp: between_episodes_def split: if_splits prod.splits option.splits)
        show thesis
        proof (cases r2)
          case Hang
          with assms p1 ns1 rf Ret x True be show thesis
            by (auto simp: replay_single_episode_def intro: delay_failed)
        next
          case (Raise err)
          with assms p1 ns1 rf Ret x True be nosend show thesis
            by (auto simp: replay_single_episode_def intro: delay_failed)
        next
          case r2: (Ret y)
          obtain s3 sch3 where y: "y = (s3, sch3)" by (cases y)
          obtain tr3 r3 where el: "episode_loop cfg w es s3 sch3 = (tr3, r3)"
            by (cases "episode_loop cfg w es s3 sch3")
          with assms p1 ns1 rf Ret x True be r2 y
          have "tr = LoadEpisode e # tr1 @ tr2 @ tr3" "r = r3"
            by (auto simp: replay_single_episode_def)
          with rf Ret x True be r2 y el show thesis by (auto intro: continue)
        qed
      qed
    qed
  qed
qed

lemma episode_loop_events:
  "episode_loop cfg w es s sch = (tr, r) \<Longrightarrow> ev \<in> set tr \<Longrightarrow>
     (\<exists>e \<in> set es. ev = LoadEpisode e \<or>
        (\<exists>f a. ev = SendAction e f a \<and> f < num_frames w e
           \<and> build_action (action_names w e) (action_array w e f) = Inr a))
   \<or> ev = Sleep (episode_delay cfg)"
proof (induction es arbitrary: s sch tr)
  case Nil
  then show ?case by simp
next
  case (Cons e es)
  have first: "\<exists>f a. ev = SendAction e f a \<and> f < num_frames w e
      \<and> build_action (action_names w e) (action_array w e f) = Inr a"
    if "replay_frames w e [0..<num_frames w e] s1 sch1 = (tr1, r1)" and "ev \<in> set tr1"
    for tr1 r1 s1 sch1
    using replay_frames_events [OF that] by simp
  have second: "ev = Sleep (episode_delay cfg)"
    if "between_episodes cfg e s2 sch2 = (tr2, r2)" and "ev \<in> set tr2"
    for tr2 r2 s2 sch2
    using between_episodes_events [OF that] .
  from Cons.prems(1) show ?case
  proof (cases rule: episode_loop_Cons_cases)
    case (stopped s1 sch1)
    with Cons.prems(2) show ?thesis by simp
  next
    case (hang tr1 s1 sch1)
    with Cons.prems(2) first [OF hang(1)] show ?thesis by auto
  next
    case (raised tr1 s1 sch1 err)
    with Cons.prems(2) first [OF raised(1)] show ?thesis by auto
  next
    case (interrupted tr1 s1 sch1 s2 sch2)
    with Cons.prems(2) first [OF interrupted(1)] show ?thesis by auto
  next
    case (delay_failed tr1 s1 sch1 s2 sch2 tr2 r2)
    with Cons.prems(2) first [OF delay_failed(1)] second [OF delay_failed(2)]
    show ?thesis by auto
  next
    case (continue tr1 s1 sch1 s2 sch2 tr2 s3 sch3 tr3)
    from Cons.prems(2) continue(4)
    consider "ev = LoadEpisode e" | "ev \<in> set tr1" | "ev \<in> set tr2" | "ev \<in> set tr3"
      by auto
    then show ?thesis
    proof cases
      case 1
      then show ?thesis by simp
    next
      case 2
      with first [OF continue(1)] show ?thesis by auto
    next
      case 3
      with second [OF continue(2)] show ?thesis by simp
    next
      case 4
      with Cons.IH [OF continue(3)] show ?thesis by auto
    qed
  qed
qed

lemma episode_loop_failed_send:
  assumes "sorted es"
    and "episode_loop cfg w es s sch = (tr, r)"
    and "SendAction e f a \<in> set tr"
    and "send_action w e f = Some msg"
  shows "r = Raise (SendError msg) \<and> (\<exists>tr'. tr = tr' @ [SendAction e f a])
    \<and> (\<forall>e' f' a'. SendAction e' f' a' \<in> set tr \<longrightarrow> e' \<le> e)"
  using assms
proof (induction es arbitrary: s sch tr)
  case Nil
  then show ?case by simp
next
  case (Cons e0 es)
  have first: "\<And>tr1 r1 s1 sch1 ev. replay_frames w e0 [0..<num_frames w e0] s1 sch1 = (tr1, r1) \<Longrightarrow>
      ev \<in> set tr1 \<Longrightarrow> \<exists>f' a'. ev = SendAction e0 f' a'"
    by (blast dest: replay_frames_events)
  have here: "r1 = Raise (SendError msg) \<and> (\<exists>tr'. tr = tr' @ [SendAction e f a])
      \<and> (\<forall>e' f' a'. SendAction e' f' a' \<in> set tr \<longrightarrow> e' \<le> e)"
    if rf: "replay_frames w e0 [0..<num_frames w e0] s1 sch1 = (tr1, r1)"
      and tr: "tr = LoadEpisode e0 # tr1"
    for tr1 r1 s1 sch1
  proof -
    from Cons.prems(3) tr have mem: "SendAction e f a \<in> set tr1" by simp
    from first [OF rf mem] have e: "e = e0" by auto
    from replay_frames_failed_send [OF rf mem Cons.prems(4)] obtain tr' where
      "r1 = Raise (SendError msg)" "tr1 = tr' @ [SendAction e f a]" by blast
    moreover have "\<forall>e' f' a'. SendAction e' f' a' \<in> set tr \<longrightarrow> e' \<le> e"
      using first [OF rf] tr e by auto
    ultimately show ?thesis using tr by auto
  qed
  from Cons.prems(2) show ?case
  proof (cases rule: episode_loop_Cons_cases)
    case (stopped s1 sch1)
    with Cons.prems(3) show ?thesis by simp
  next
    case (hang tr1 s1 sch1)
    from here [OF hang(1,2)] show ?thesis by simp
  next
    case (raised tr1 s1 sch1 err)
    from here [OF raised(1,2)] raised(3) show ?thesis by simp
  next
    case (interrupted tr1 s1 sch1 s2 sch2)
    from Cons.prems(3) interrupted(2) have mem: "SendAction e f a \<in> set tr1" by simp
    from replay_frames_failed_send [OF interrupted(1) mem Cons.prems(4)] show ?thesis by simp
  next
    case (delay_failed tr1 s1 sch1 s2 sch2 tr2 r2)
    have "SendAction e f a \<notin> set tr2"
      using between_episodes_events [OF delay_failed(2)] by auto
    with Cons.prems(3) delay_failed(4) have mem: "SendAction e f a \<in> set tr1" by simp
    from replay_frames_failed_send [OF delay_failed(1) mem Cons.prems(4)] show ?thesis by simp
  next
    case (continue tr1 s1 sch1 s2 sch2 tr2 s3 sch3 tr3)
    have n2: "\<And>e' f' a'. SendAction e' f' a' \<notin> set tr2"
      using between_episodes_events [OF continue(2)] by auto
    have n1: "SendAction e f a \<notin> set tr1"
    proof
      assume "SendAction e f a \<in> set tr1"
      from replay_frames_failed_send [OF continue(1) this Cons.prems(4)] show False by simp
    qed
    from Cons.prems(3) continue(4) n1 n2 have mem: "SendAction e f a \<in> set tr3" by simp
    from Cons.prems(1) have "sorted es" by simp
    from Cons.IH [OF this continue(3) mem Cons.prems(4)] obtain tr' where
      r: "r = Raise (SendError msg)" and t3: "tr3 = tr' @ [SendAction e f a]"
      and le: "\<forall>e' f' a'. SendAction e' f' a' \<in> set tr3 \<longrightarrow> e' \<le> e" by blast
    from episode_loop_events [OF continue(3) mem] have "e \<in> set es" by auto
    with Cons.prems(1) have "e0 \<le> e" by auto
    with first [OF continue(1)] have "\<forall>e' f' a'. SendAction e' f' a' \<in> set tr1 \<longrightarrow> e' \<le> e"
      by fastforce
    with le n2 continue(4) have "\<forall>e' f' a'. SendAction e' f' a' \<in> set tr \<longrightarrow> e' \<le> e"
      by simp blast
    moreover from continue(4) t3 have "tr = (LoadEpisode e0 # tr1 @ tr2 @ tr') @ [SendAction e f a]"
      by simp
    ultimately show ?thesis using r by blast
  qed
qed


subsection \<open>Runs without operator input\<close>

lemma quiet_tl: "quiet sch \<Longrightarrow> quiet (tl sch)"
  by (cases sch) (simp_all add: quiet_def)

lemma poll_quiet: "quiet sch \<Longrightarrow> poll s sch = (s, tl sch)"
  by (cases sch) (simp_all add: quiet_def poll_def deliver_Nil)

lemma pause_wait_quiet: "quiet sch \<Longrightarrow> \<not> is_paused s \<Longrightarrow> pause_wait s sch = Some (s, tl sch)"
  by (cases sch) (simp_all add: quiet_def deliver_Nil)

lemma replay_frames_quiet:
  assumes "quiet sch" and "\<not> should_stop s" and "\<not> is_paused s" and "dataset_fps w \<noteq> 0"
    and "\<forall>f \<in> set fs. send_action w e f = None
          \<and> length (action_names w e) \<le> length (action_array w e f)"
  shows "\<exists>sch'. quiet sch' \<and>
    replay_frames w e fs s sch = (map (\<lambda>f. SendAction e f (action_of w e f)) fs, Ret (True, s, sch'))"
  using assms
proof (induction fs arbitrary: sch)
  case Nil
  then show ?case by simp
next
  case (Cons f fs)
  let ?sch3 = "tl (tl (tl sch))"
  from Cons.prems(1) have q3: "quiet ?sch3" by (intro quiet_tl)
  from Cons.prems(5) have rest: "\<forall>f \<in> set fs. send_action w e f = None
      \<and> length (action_names w e) \<le> length (action_array w e f)" by simp
  from Cons.IH [OF q3 Cons.prems(2,3,4) rest] obtain sch' where
    q': "quiet sch'" and
    rf: "replay_frames w e fs s ?sch3 = (map (\<lambda>f. SendAction e f (action_of w e f)) fs, Ret (True, s, sch'))"
    by blast
  from Cons.prems(5) have ok: "send_action w e f = None"
    and len: "length (action_names w e) \<le> length (action_array w e f)" by simp_all
  from len have ba: "build_action (action_names w e) (action_array w e f) = Inr (action_of w e f)"
    by (simp add: build_action_def action_of_def)
  have "replay_frames w e (f # fs) s sch =
      (map (\<lambda>f. SendAction e f (action_of w e f)) (f # fs), Ret (True, s, sch'))"
    using Cons.prems(1,2,3,4) ok ba rf
    by (simp add: poll_quiet pause_wait_quiet quiet_tl)
  with q' show ?case by blast
qed

lemma between_episodes_quiet:
  assumes "quiet sch" and "\<not> should_stop s" and "auto_advance cfg"
    and "0 \<le> episode_delay cfg \<and> episode_delay cfg * 1000000000 < 2 ^ 63"
  shows "\<exists>sch'. quiet sch' \<and> between_episodes cfg e s sch =
     (if e < end_episode s then [Sleep (episode_delay cfg)] else [], Ret (s, sch'))"
proof (cases "e < end_episode s")
  case True
  with assms have "between_episodes cfg e s sch = ([Sleep (episode_delay cfg)], Ret (s, tl sch))"
    by (simp add: between_episodes_def poll_quiet)
  with True quiet_tl [OF assms(1)] show ?thesis by auto
next
  case False
  with assms show ?thesis by (auto simp: between_episodes_def)
qed

lemma episode_loop_quiet:
  assumes "quiet sch" and "\<not> should_stop s" and "\<not> is_paused s" and "dataset_fps w \<noteq> 0"
    and "auto_advance cfg"
    and "0 \<le> episode_delay cfg \<and> episode_delay cfg * 1000000000 < 2 ^ 63"
    and "\<forall>e \<in> set es. \<forall>f < num_frames w e. send_action w e f = None
          \<and> length (action_names w e) \<le> length (action_array w e f)"
  shows "\<exists>sch'. quiet sch' \<and>
    episode_loop cfg w es s sch =
      (concat (map (episode_events cfg w (end_episode s)) es), Ret (s, sch'))"
  using assms
proof (induction es arbitrary: sch)
  case Nil
  then show ?case by simp
next
  case (Cons e es)
  from Cons.prems(7) have frames: "\<forall>f \<in> set [0..<num_frames w e]. send_action w e f = None
      \<and> length (action_names w e) \<le> length (action_array w e f)" by simp
  from replay_frames_quiet [OF quiet_tl [OF Cons.prems(1)] Cons.prems(2,3,4) frames]
  obtain sch2 where q2: "quiet sch2" and
    rf: "replay_frames w e [0..<num_frames w e] s (tl sch) =
      (map (\<lambda>f. SendAction e f (action_of w e f)) [0..<num_frames w e], Ret (True, s, sch2))"
    by blast
  from between_episodes_quiet [OF q2 Cons.prems(2,5,6)] obtain sch3 where q3: "quiet sch3" and
    be: "between_episodes cfg e s sch2 =
      (if e < end_episode s then [Sleep (episode_delay cfg)] else [], Ret (s, sch3))"
    by blast
  from Cons.prems(7) have "\<forall>e \<in> set es. \<forall>f < num_frames w e. send_action w e f = None
      \<and> length (action_names w e) \<le> length (action_array w e f)" by simp
  from Cons.IH [OF q3 Cons.prems(2,3,4,5,6) this] obtain sch' where q': "quiet sch'" and
    el: "episode_loop cfg w es s sch3 =
      (concat (map (episode_events cfg w (end_episode s)) es), Ret (s, sch'))"
    by blast
  have "episode_loop cfg w (e # es) s sch =
      (concat (map (episode_events cfg w (end_episode s)) (e # es)), Ret (s, sch'))"
    using Cons.prems(1,2) rf be el
    by (simp add: poll_quiet replay_single_episode_def episode_events_def)
  with q' show ?case by blast
qed


subsection \<open>Setup and the stop flag\<close>

lemma setup_ok:
  assumes "setup_robot_and_dataset cfg w s = (tr0, s0, None)"
  shows "tr0 = [Connect, LoadDataset]" and "robot_connected s0"
    and "episode_range (num_episodes w) (cfg_start_episode cfg) (cfg_end_episode cfg)
          = Inr (current_episode s0, end_episode s0)"
    and "is_paused s0 = is_paused s" and "should_stop s0 = should_stop s"
  using assms
  by (auto simp: setup_robot_and_dataset_def Let_def split: if_splits sum.splits prod.splits)

lemma setup_failed:
  assumes "setup_robot_and_dataset cfg w s = (tr0, s0, Some err)"
  shows "set tr0 \<subseteq> {Connect, LoadDataset}"
  using assms
  by (auto simp: setup_robot_and_dataset_def Let_def split: if_splits sum.splits prod.splits)

lemma listener_only_stop: "listener_only s sch s' sch' \<Longrightarrow> should_stop s \<Longrightarrow> should_stop s'"
  by (auto simp: listener_only_def deliver_stopped)

lemma deliver_keeps_stop: "should_stop (deliver evs s) \<Longrightarrow> should_stop (deliver (evs @ evs') s)"
  by (simp add: deliver_append deliver_stopped)


subsection \<open>Whole runs\<close>

lemma sends_Nil: "sends [] = []"
  by (simp add: sends_def List.map_filter_simps)

lemma sends_Cons:
  "sends (ev # tr) = (case ev of SendAction e f a \<Rightarrow> (e, f) # sends tr | _ \<Rightarrow> sends tr)"
  by (cases ev) (simp_all add: sends_def sent_def List.map_filter_simps)

lemma sends_append: "sends (xs @ ys) = sends xs @ sends ys"
  by (simp add: sends_def List.map_filter_def)

lemma sends_map_SendAction: "sends (map (\<lambda>f. SendAction e f (g f)) fs) = map (Pair e) fs"
  by (induction fs) (simp_all add: sends_Nil sends_Cons)

lemma sends_episode_events:
  "sends (episode_events cfg w end_ep e) = map (Pair e) [0..<num_frames w e]"
  by (simp add: episode_events_def sends_Cons sends_append sends_map_SendAction sends_Nil)

lemma Disconnect_notin_episode_events: "Disconnect \<notin> set (episode_events cfg w end_ep e)"
  by (auto simp: episode_events_def)

lemma send_calls_Nil: "send_calls [] = []"
  by (simp add: send_calls_def)

lemma send_calls_Cons:
  "send_calls (ev # tr) =
     (case ev of SendAction e f a \<Rightarrow> SendAction e f a # send_calls tr | _ \<Rightarrow> send_calls tr)"
  by (cases ev) (simp_all add: send_calls_def sent_def)

lemma send_calls_append: "send_calls (xs @ ys) = send_calls xs @ send_calls ys"
  by (simp add: send_calls_def)

lemma send_calls_map_SendAction:
  "send_calls (map (\<lambda>f. SendAction e f (g f)) fs) = map (\<lambda>f. SendAction e f (g f)) fs"
  by (induction fs) (simp_all add: send_calls_Nil send_calls_Cons)

lemma send_calls_episode_events:
  "send_calls (episode_events cfg w end_ep e) =
     map (\<lambda>f. SendAction e f (action_of w e f)) [0..<num_frames w e]"
  by (simp add: episode_events_def send_calls_Cons send_calls_append send_calls_map_SendAction
      send_calls_Nil)

lemma sends_concat: "sends (concat xss) = concat (map sends xss)"
  by (induction xss) (simp_all add: sends_Nil sends_append)

lemma run_quiet:
  assumes "quiet sch" and "\<not> connect_raises w" and "link_up w" and "dataset_fps w \<noteq> 0"
    and "auto_advance cfg"
    and "0 \<le> episode_delay cfg \<and> episode_delay cfg * 1000000000 < 2 ^ 63"
    and "episode_range (num_episodes w) (cfg_start_episode cfg) (cfg_end_episode cfg)
          = Inr (start_ep, end_ep)"
    and "\<forall>e \<in> {start_ep .. end_ep}. \<forall>f < num_frames w e. send_action w e f = None
          \<and> length (action_names w e) \<le> length (action_array w e f)"
  shows "run cfg w sch =
    ([Connect, LoadDataset] @ concat (map (episode_events cfg w end_ep) [start_ep .. end_ep])
       @ (if still_connected w
              (sends (concat (map (episode_events cfg w end_ep) [start_ep .. end_ep])))
          then [Disconnect] else []),
     Some (Completed start_ep end_ep))"
proof -
  define s0 where "s0 = (init_replayer cfg)\<lparr>robot_connected := True,
     total_episodes := num_episodes w, current_episode := start_ep, end_episode := end_ep\<rparr>"
  have su: "setup_robot_and_dataset cfg w (init_replayer cfg) = ([Connect, LoadDataset], s0, None)"
    using assms(2,3,7) by (simp add: setup_robot_and_dataset_def s0_def)
  have s0: "\<not> should_stop (s0\<lparr>listening := True\<rparr>)" "\<not> is_paused (s0\<lparr>listening := True\<rparr>)"
    "end_episode (s0\<lparr>listening := True\<rparr>) = end_ep" "current_episode s0 = start_ep"
    "end_episode s0 = end_ep"
    "current_episode (s0\<lparr>listening := True\<rparr>) = start_ep"
    by (simp_all add: s0_def init_replayer_def)
  from assms(8) have frames: "\<forall>e \<in> set [start_ep .. end_ep]. \<forall>f < num_frames w e.
      send_action w e f = None \<and> length (action_names w e) \<le> length (action_array w e f)"
    by simp
  from episode_loop_quiet [OF assms(1) s0(1,2) assms(4,5,6) frames]
  obtain sch' where q': "quiet sch'" and
    el: "episode_loop cfg w [start_ep .. end_ep] (s0\<lparr>listening := True\<rparr>) sch =
      (concat (map (episode_events cfg w end_ep) [start_ep .. end_ep]),
       Ret (s0\<lparr>listening := True\<rparr>, sch'))"
    by (auto simp: s0(3))
  show ?thesis
    using su el s0 q'
    by (simp add: run_def conclude_def poll_quiet cleanup_def)
qed

lemma upto_0_2: "[0..2] = [0, 1, 2::int]"
  by code_simp

lemma upt_0_5: "[0..<5] = [0, 1, 2, 3, 4::nat]"
  by code_simp


subsection \<open>The reset command\<close>

lemma rr_deliver_reset:
  assumes "listening s" and "\<not> should_stop s"
    and "lower (strip l) = ''r'' \<or> lower (strip l) = ''reset''"
  shows "\<exists>rest s'. rr_deliver w (Line l # evs) s =
    (SendBegin ListenerThread home_action # SendDone ListenerThread # rest, s')"
proof -
  from assms(3) have "rr_listener_body w (Line l) s =
      (s, fst (reset_robot w ListenerThread), ResettingRobot # snd (reset_robot w ListenerThread))"
    by (auto simp: Let_def split: prod.splits)
  moreover have "\<exists>rest. fst (reset_robot w ListenerThread) =
      SendBegin ListenerThread home_action # SendDone ListenerThread # rest"
    by (simp add: reset_robot_def)
  ultimately show ?thesis
    using assms(1,2) by (auto simp: rr_input_listener_def split: prod.splits)
qed

lemma rr_deliver_Nil: "rr_deliver w [] s = ([], s)"
  by simp

lemma rr_poll_quiet_batch: "rr_poll w s ([] # sch) = ([], s, sch)"
  by (simp add: rr_poll_def)

lemma rr_pause_wait_playing:
  "\<not> is_paused s \<Longrightarrow> rr_pause_wait w s ([] # sch) = ([], Some (s, sch))"
  by simp

lemma overlap_not_serialized: "\<not> serialized (SendBegin t a # SendBegin t' a' # rest)"
  by (simp add: serialized_def)


section \<open>Unrecognised commands\<close>

text \<open>
  Claim C9. An operator line that, trimmed and lower-cased, is none of the recognised
  commands leaves the replayer unchanged in every field, flags and listener state
  included: the handler only prints the ``Unknown command'' diagnostic, and the listener
  goes on reading. This holds for the listener of \<^verbatim>\<open>replay_all_episodes.py\<close> and for
  the one of \<^verbatim>\<open>replay_with_real_robot.py\<close>, which sends nothing to the robot either.
\<close>

theorem unknown_command_no_effect:
  "lower (strip l) \<notin> recognized \<Longrightarrow>
     listener_body (Line l) s = (s, [UnknownCommand])
   \<and> input_listener (Line l) s =
       (s, if listening s \<and> \<not> should_stop s then [UnknownCommand] else [])
   \<and> deliver [Line l] s = s
   \<and> rr_listener_body w (Line l) s = (s, [], [UnknownCommand])
   \<and> rr_deliver w [Line l] s = ([], s)"
  by (simp add: recognized_def input_listener_def deliver_def rr_input_listener_def)

theorem unknown_command_no_effect_witness:
  "lower (strip '' Faster! '') \<notin> recognized
   \<and> listener_body (Line '' Faster! '') scenario_state = (scenario_state, [UnknownCommand])
   \<and> input_listener (Line '' Faster! '') scenario_state = (scenario_state, [UnknownCommand])
   \<and> deliver [Line '' Faster! ''] scenario_state = scenario_state
   \<and> rr_listener_body rr_scenario_world (Line '' Faster! '') scenario_state
       = (scenario_state, [], [UnknownCommand])
   \<and> rr_deliver rr_scenario_world [Line '' Faster! ''] scenario_state = ([], scenario_state)"
proof -
  have h: "lower (strip '' Faster! '') \<notin> recognized"
    by (simp add: recognized_def lower_def strip_def isspace_def lower_char_def)
  have "listening scenario_state \<and> \<not> should_stop scenario_state"
    by (simp add: scenario_state_def)
  with h unknown_command_no_effect [OF h, of scenario_state rr_scenario_world] show ?thesis
    by simp
qed

section \<open>Episode range\<close>

text \<open>
  Claim C10. The setup normalises the configured range: with a start below the number of
  episodes, an end of \<open>-1\<close> selects the last episode and an end at or beyond the number
  of episodes is clamped to the last episode, not rejected. The setup raises exactly when
  the start is at or beyond the number of episodes or exceeds the normalised end. A
  negative start is never rejected (the number of episodes being non-negative).
\<close>

theorem episode_range_normalizes:
  "(start_ep < total_eps \<longrightarrow> episode_range total_eps start_ep (- 1) = Inr (start_ep, total_eps - 1))
   \<and> (start_ep < total_eps \<and> total_eps \<le> end_ep \<longrightarrow>
        episode_range total_eps start_ep end_ep = Inr (start_ep, total_eps - 1))
   \<and> ((\<exists>err. episode_range total_eps start_ep end_ep = Inl err) \<longleftrightarrow>
        (total_eps \<le> start_ep \<or> normalized_end total_eps end_ep < start_ep))
   \<and> (0 \<le> total_eps \<and> start_ep < 0 \<longrightarrow>
        episode_range total_eps start_ep end_ep = Inr (start_ep, normalized_end total_eps end_ep))"
  by (auto simp: episode_range_def normalized_end_def Let_def)

theorem episode_range_normalizes_witness:
  "(1::int) < 5 \<and> episode_range 5 1 (- 1) = Inr (1, 4)
   \<and> (5::int) \<le> 9 \<and> episode_range 5 1 9 = Inr (1, 4)
   \<and> (5::int) \<le> 7 \<and> (\<exists>err. episode_range 5 7 9 = Inl err)
   \<and> normalized_end 5 2 < 3 \<and> (\<exists>err. episode_range 5 3 2 = Inl err)
   \<and> (0::int) \<le> 5 \<and> (- 2::int) < 0 \<and> episode_range 5 (- 2) 3 = Inr (- 2, 3)"
proof -
  have n1: "normalized_end 5 2 = 2" and n2: "normalized_end 5 3 = 3"
    by (simp_all add: normalized_end_def)
  show ?thesis
    using episode_range_normalizes [of 1 5 9] episode_range_normalizes [of 7 5 9]
      episode_range_normalizes [of 3 5 2] episode_range_normalizes [of "- 2" 5 3]
    by (simp add: n1 n2)
qed

section \<open>Frame pacing\<close>

text \<open>
  Claim C5. The delay after a frame is \<open>max (1 / fps - elapsed) 0\<close>: for \<open>fps > 0\<close> it
  is \<open>1 / fps - elapsed\<close> when \<open>0 \<le> elapsed < 1 / fps\<close> and \<open>0\<close> when
  \<open>elapsed \<ge> 1 / fps\<close>; an overrun is never made up for. Floats are read as reals.
\<close>

theorem sleep_time_scheduler:
  "0 < fps \<Longrightarrow>
     (0 \<le> elapsed \<and> elapsed < 1 / fps \<longrightarrow> sleep_time fps elapsed = Inr (1 / fps - elapsed))
   \<and> (1 / fps \<le> elapsed \<longrightarrow> sleep_time fps elapsed = Inr 0)"
  by (auto simp: sleep_time_def)

theorem sleep_time_scheduler_witness:
  "(0::real) < 10 \<and> (0::real) \<le> 3 / 100 \<and> (3 / 100 :: real) < 1 / 10
   \<and> sleep_time 10 (3 / 100) = Inr (7 / 100)
   \<and> (1 / 10 :: real) \<le> 1 / 4 \<and> sleep_time 10 (1 / 4) = Inr 0"
  using sleep_time_scheduler [of 10 "3 / 100"] sleep_time_scheduler [of 10 "1 / 4"]
  by simp

section \<open>Connection failure\<close>

text \<open>
  Claim C6. When connecting fails (\<^verbatim>\<open>connect\<close> raises, or returns with the robot not
  connected), the run ends before the episode loop: nothing is loaded and no action is
  sent, the outcome is the error, and the cleanup disconnects exactly when the robot
  reports to be connected.
\<close>

theorem connect_failure_is_fatal:
  "connect_raises w \<or> \<not> link_up w \<Longrightarrow>
   run cfg w sch =
     (if link_up w then [Connect, Disconnect] else [Connect],
      Some (Failed (if connect_raises w then ConnectError else RobotNotConnected)))"
  by (auto simp: run_def setup_robot_and_dataset_def cleanup_def Let_def)

theorem connect_failure_is_fatal_witness:
  "connect_raises (scenario_world\<lparr>connect_raises := True, link_up := False\<rparr>)
   \<and> run scenario_cfg (scenario_world\<lparr>connect_raises := True, link_up := False\<rparr>)
        [[Line ''p''], [Line ''q'']]
      = ([Connect], Some (Failed ConnectError))
   \<and> \<not> link_up (scenario_world\<lparr>link_up := False\<rparr>)
   \<and> run scenario_cfg (scenario_world\<lparr>link_up := False\<rparr>) []
      = ([Connect], Some (Failed RobotNotConnected))
   \<and> connect_raises (scenario_world\<lparr>connect_raises := True\<rparr>)
   \<and> run scenario_cfg (scenario_world\<lparr>connect_raises := True\<rparr>) []
      = ([Connect, Disconnect], Some (Failed ConnectError))"
  using connect_failure_is_fatal
      [of "scenario_world\<lparr>connect_raises := True, link_up := False\<rparr>" scenario_cfg
        "[[Line ''p''], [Line ''q'']]"]
    connect_failure_is_fatal [of "scenario_world\<lparr>link_up := False\<rparr>" scenario_cfg "[]"]
    connect_failure_is_fatal [of "scenario_world\<lparr>connect_raises := True\<rparr>" scenario_cfg "[]"]
  by (simp add: scenario_world_def)

section \<open>The stop flag\<close>

text \<open>
  Claim C4. Once \<open>should_stop\<close> is true it stays true. No handler of the listener
  clears it, so it stays true under all further input; and whatever the main thread runs
  (the pause loop, the wait between episodes, the frame loop, the episode loop), the
  replayer it ends with comes from the one it started with by listener steps only, so the
  flag, once set, is still set.
\<close>

theorem should_stop_never_reverts:
  "(should_stop s \<longrightarrow>
      should_stop (fst (listener_body ev s)) \<and> should_stop (fst (input_listener ev s)))
   \<and> (should_stop (deliver evs s) \<longrightarrow> should_stop (deliver (evs @ evs') s))
   \<and> (\<forall>s' sch'. pause_wait s sch = Some (s', sch') \<longrightarrow>
        listener_only s sch s' sch' \<and> (should_stop s \<longrightarrow> should_stop s'))
   \<and> (\<forall>s' sch'. wait_advance s sch = Some (s', sch') \<longrightarrow>
        listener_only s sch s' sch' \<and> (should_stop s \<longrightarrow> should_stop s'))
   \<and> (\<forall>tr b s' sch'. replay_frames w e fs s sch = (tr, Ret (b, s', sch')) \<longrightarrow>
        listener_only s sch s' sch' \<and> (should_stop s \<longrightarrow> should_stop s'))
   \<and> (\<forall>tr s' sch'. episode_loop cfg w es s sch = (tr, Ret (s', sch')) \<longrightarrow>
        listener_only s sch s' sch' \<and> (should_stop s \<longrightarrow> should_stop s'))"
proof (intro conjI allI impI)
  assume "should_stop s"
  then show "should_stop (fst (listener_body ev s))" by (rule listener_body_keeps_stop)
next
  assume "should_stop s"
  then show "should_stop (fst (input_listener ev s))" by (simp add: input_listener_stopped)
next
  assume "should_stop (deliver evs s)"
  then show "should_stop (deliver (evs @ evs') s)" by (rule deliver_keeps_stop)
next
  fix s' sch' assume "pause_wait s sch = Some (s', sch')"
  then show "listener_only s sch s' sch'" by (rule pause_wait_listener_only)
next
  fix s' sch' assume "pause_wait s sch = Some (s', sch')" and "should_stop s"
  then show "should_stop s'" by (blast intro: listener_only_stop pause_wait_listener_only)
next
  fix s' sch' assume "wait_advance s sch = Some (s', sch')"
  then show "listener_only s sch s' sch'" by (rule wait_advance_listener_only)
next
  fix s' sch' assume "wait_advance s sch = Some (s', sch')" and "should_stop s"
  then show "should_stop s'" by (blast intro: listener_only_stop wait_advance_listener_only)
next
  fix tr b s' sch' assume "replay_frames w e fs s sch = (tr, Ret (b, s', sch'))"
  then show "listener_only s sch s' sch'" by (rule replay_frames_listener_only)
next
  fix tr b s' sch' assume "replay_frames w e fs s sch = (tr, Ret (b, s', sch'))" and "should_stop s"
  then show "should_stop s'" by (blast intro: listener_only_stop replay_frames_listener_only)
next
  fix tr s' sch' assume "episode_loop cfg w es s sch = (tr, Ret (s', sch'))"
  then show "listener_only s sch s' sch'" by (rule episode_loop_listener_only)
next
  fix tr s' sch' assume "episode_loop cfg w es s sch = (tr, Ret (s', sch'))" and "should_stop s"
  then show "should_stop s'" by (blast intro: listener_only_stop episode_loop_listener_only)
qed

theorem should_stop_never_reverts_witness:
  "should_stop (scenario_state\<lparr>should_stop := True\<rparr>)
   \<and> should_stop (fst (listener_body (Line ''p'') (scenario_state\<lparr>should_stop := True\<rparr>)))
   \<and> should_stop (fst (input_listener (Line ''p'') (scenario_state\<lparr>should_stop := True\<rparr>)))
   \<and> should_stop (deliver [Line ''q''] scenario_state)
   \<and> should_stop (deliver ([Line ''q''] @ [Line ''p'', KeyboardInterrupt]) scenario_state)
   \<and> pause_wait (scenario_state\<lparr>is_paused := True\<rparr>) [[], [Line ''q''], [Line ''p'']]
       = Some (scenario_state\<lparr>is_paused := True, should_stop := True\<rparr>, [[Line ''p'']])
   \<and> listener_only (scenario_state\<lparr>is_paused := True\<rparr>) [[], [Line ''q''], [Line ''p'']]
        (scenario_state\<lparr>is_paused := True, should_stop := True\<rparr>) [[Line ''p'']]
   \<and> wait_advance (scenario_state\<lparr>should_stop := True\<rparr>) [[Line ''p'']]
       = Some (scenario_state\<lparr>should_stop := True\<rparr>, [])
   \<and> listener_only (scenario_state\<lparr>should_stop := True\<rparr>) [[Line ''p'']]
        (scenario_state\<lparr>should_stop := True\<rparr>) []
   \<and> replay_frames scenario_world 0 [0, 1] scenario_state [[], [], [], [Line ''Quit'']]
       = ([SendAction 0 0 [(''shoulder_pan.pos'', 0), (''gripper.pos'', 0)]],
          Ret (False, scenario_state\<lparr>should_stop := True\<rparr>, []))
   \<and> listener_only scenario_state [[], [], [], [Line ''Quit'']]
        (scenario_state\<lparr>should_stop := True\<rparr>) []
   \<and> episode_loop scenario_cfg scenario_world [0, 1, 2] scenario_state [[Line ''q''], [Line ''p'']]
       = ([], Ret (scenario_state\<lparr>should_stop := True\<rparr>, [[Line ''p'']]))
   \<and> listener_only scenario_state [[Line ''q''], [Line ''p'']]
        (scenario_state\<lparr>should_stop := True\<rparr>) [[Line ''p'']]"
proof -
  have a: "should_stop (scenario_state\<lparr>should_stop := True\<rparr>)" by simp
  have b: "should_stop (deliver [Line ''q''] scenario_state)" by code_simp
  have c: "pause_wait (scenario_state\<lparr>is_paused := True\<rparr>) [[], [Line ''q''], [Line ''p'']]
       = Some (scenario_state\<lparr>is_paused := True, should_stop := True\<rparr>, [[Line ''p'']])"
    by code_simp
  have d: "wait_advance (scenario_state\<lparr>should_stop := True\<rparr>) [[Line ''p'']]
       = Some (scenario_state\<lparr>should_stop := True\<rparr>, [])"
    by code_simp
  have e: "replay_frames scenario_world 0 [0, 1] scenario_state [[], [], [], [Line ''Quit'']]
       = ([SendAction 0 0 [(''shoulder_pan.pos'', 0), (''gripper.pos'', 0)]],
          Ret (False, scenario_state\<lparr>should_stop := True\<rparr>, []))"
    by code_simp
  have f: "episode_loop scenario_cfg scenario_world [0, 1, 2] scenario_state
        [[Line ''q''], [Line ''p'']]
       = ([], Ret (scenario_state\<lparr>should_stop := True\<rparr>, [[Line ''p'']]))"
    by code_simp
  note t1 = should_stop_never_reverts
    [of "scenario_state\<lparr>should_stop := True\<rparr>" "Line ''p''" "[]" "[]" "[[Line ''p'']]"
      scenario_world 0 "[]" scenario_cfg "[]"]
  note t2 = should_stop_never_reverts
    [of scenario_state "Line ''p''" "[Line ''q'']" "[Line ''p'', KeyboardInterrupt]"
      "[[], [], [], [Line ''Quit'']]" scenario_world 0 "[0, 1]" scenario_cfg "[]"]
  note t3 = should_stop_never_reverts
    [of "scenario_state\<lparr>is_paused := True\<rparr>" "Line ''p''" "[]" "[]"
      "[[], [Line ''q''], [Line ''p'']]" scenario_world 0 "[]" scenario_cfg "[]"]
  note t4 = should_stop_never_reverts
    [of scenario_state "Line ''p''" "[]" "[]" "[[Line ''q''], [Line ''p'']]"
      scenario_world 0 "[]" scenario_cfg "[0, 1, 2]"]
  from t1 a have "should_stop (fst (listener_body (Line ''p'') (scenario_state\<lparr>should_stop := True\<rparr>)))"
    and "should_stop (fst (input_listener (Line ''p'') (scenario_state\<lparr>should_stop := True\<rparr>)))"
    by blast+
  moreover from t2 b
  have "should_stop (deliver ([Line ''q''] @ [Line ''p'', KeyboardInterrupt]) scenario_state)"
    by blast
  moreover from t3 c
  have "listener_only (scenario_state\<lparr>is_paused := True\<rparr>) [[], [Line ''q''], [Line ''p'']]
        (scenario_state\<lparr>is_paused := True, should_stop := True\<rparr>) [[Line ''p'']]"
    by blast
  moreover from t1 d
  have "listener_only (scenario_state\<lparr>should_stop := True\<rparr>) [[Line ''p'']]
        (scenario_state\<lparr>should_stop := True\<rparr>) []"
    by blast
  moreover from t2 e
  have "listener_only scenario_state [[], [], [], [Line ''Quit'']]
        (scenario_state\<lparr>should_stop := True\<rparr>) []"
    by blast
  moreover from t4 f
  have "listener_only scenario_state [[Line ''q''], [Line ''p'']]
        (scenario_state\<lparr>should_stop := True\<rparr>) [[Line ''p'']]"
    by blast
  ultimately show ?thesis using a b c d e f by blast
qed

section \<open>Stopping\<close>

text \<open>
  Claim C7. Once the main thread sees \<open>should_stop\<close> at one of its checkpoints, it sends
  nothing more and the run ends: from a replayer whose flag is set, the frame loop, the
  pause loop, the wait between episodes and the episode loop all return at once with an
  empty trace; a stop seen by the pause loop makes the frame loop return \<open>False\<close> at
  the re-check that follows; and the run concludes with the cleanup (a disconnect if the
  robot still reports to be connected) and ``stopped by user''. The time bounds of the
  claim are outside the model.
\<close>

theorem stop_observed_halts_sending:
  "should_stop s \<Longrightarrow>
     replay_frames w e fs s sch = ([], Ret (fs = [], s, if fs = [] then sch else tl sch))
   \<and> pause_wait s sch = Some (s, tl sch)
   \<and> (\<forall>t0 sch0 t1 sch1 f. poll t0 sch0 = (t1, sch1) \<and> \<not> should_stop t1
          \<and> pause_wait t1 sch1 = Some (s, sch) \<longrightarrow>
        replay_frames w e (f # fs) t0 sch0 = ([], Ret (False, s, tl sch)))
   \<and> wait_advance s sch = Some (s, tl sch)
   \<and> between_episodes cfg e s sch = ([], Ret (s, if e < end_episode s then tl sch else sch))
   \<and> episode_loop cfg w es s sch = ([], Ret (s, if es = [] then sch else tl sch))
   \<and> conclude w s0 (tr, Ret (s, sch))
       = (tr @ cleanup (s\<lparr>robot_connected := still_connected w (sends tr)\<rparr>),
          Some StoppedByUser)"
  by (simp add: replay_frames_stopped pause_wait_stopped wait_advance_stopped
      between_episodes_stopped episode_loop_stopped poll_stopped conclude_def)

theorem stop_observed_halts_sending_witness:
  "should_stop (scenario_state\<lparr>should_stop := True\<rparr>)
   \<and> replay_frames scenario_world 1 [2, 3, 4] (scenario_state\<lparr>should_stop := True\<rparr>)
        [[Line ''p''], []]
       = ([], Ret (False, scenario_state\<lparr>should_stop := True\<rparr>, [[]]))
   \<and> pause_wait (scenario_state\<lparr>should_stop := True\<rparr>) [[Line ''p''], []]
       = Some (scenario_state\<lparr>should_stop := True\<rparr>, [[]])
   \<and> wait_advance (scenario_state\<lparr>should_stop := True\<rparr>) [[Line ''p''], []]
       = Some (scenario_state\<lparr>should_stop := True\<rparr>, [[]])
   \<and> between_episodes scenario_cfg 1 (scenario_state\<lparr>should_stop := True\<rparr>) [[Line ''p''], []]
       = ([], Ret (scenario_state\<lparr>should_stop := True\<rparr>, [[]]))
   \<and> episode_loop scenario_cfg scenario_world [1, 2] (scenario_state\<lparr>should_stop := True\<rparr>)
        [[Line ''p''], []]
       = ([], Ret (scenario_state\<lparr>should_stop := True\<rparr>, [[]]))
   \<and> conclude scenario_world scenario_state
        ([LoadEpisode 0], Ret (scenario_state\<lparr>should_stop := True\<rparr>, [[Line ''p''], []]))
       = ([LoadEpisode 0, Disconnect], Some StoppedByUser)
   \<and> poll (scenario_state\<lparr>is_paused := True\<rparr>) [[], [], [Line ''q''], []]
       = (scenario_state\<lparr>is_paused := True\<rparr>, [[], [Line ''q''], []])
   \<and> \<not> should_stop (scenario_state\<lparr>is_paused := True\<rparr>)
   \<and> pause_wait (scenario_state\<lparr>is_paused := True\<rparr>) [[], [Line ''q''], []]
       = Some (scenario_state\<lparr>is_paused := True, should_stop := True\<rparr>, [[]])
   \<and> replay_frames scenario_world 0 [0, 1] (scenario_state\<lparr>is_paused := True\<rparr>)
        [[], [], [Line ''q''], []]
       = ([], Ret (False, scenario_state\<lparr>is_paused := True, should_stop := True\<rparr>, []))"
proof -
  have b: "should_stop (scenario_state\<lparr>is_paused := True, should_stop := True\<rparr>)" by simp
  have c: "poll (scenario_state\<lparr>is_paused := True\<rparr>) [[], [], [Line ''q''], []]
       = (scenario_state\<lparr>is_paused := True\<rparr>, [[], [Line ''q''], []])"
    by code_simp
  have d: "\<not> should_stop (scenario_state\<lparr>is_paused := True\<rparr>)"
    by (simp add: scenario_state_def)
  have e: "pause_wait (scenario_state\<lparr>is_paused := True\<rparr>) [[], [Line ''q''], []]
       = Some (scenario_state\<lparr>is_paused := True, should_stop := True\<rparr>, [[]])"
    by code_simp
  from stop_observed_halts_sending
    [OF b, where w = scenario_world and e = 0 and fs = "[1]" and sch = "[[]]"
      and cfg = scenario_cfg and es = "[]" and ?s0.0 = scenario_state and tr = "[]"]
  have "poll (scenario_state\<lparr>is_paused := True\<rparr>) [[], [], [Line ''q''], []]
          = (scenario_state\<lparr>is_paused := True\<rparr>, [[], [Line ''q''], []])
        \<and> \<not> should_stop (scenario_state\<lparr>is_paused := True\<rparr>)
        \<and> pause_wait (scenario_state\<lparr>is_paused := True\<rparr>) [[], [Line ''q''], []]
          = Some (scenario_state\<lparr>is_paused := True, should_stop := True\<rparr>, [[]])
      \<longrightarrow> replay_frames scenario_world 0 [0, 1] (scenario_state\<lparr>is_paused := True\<rparr>)
            [[], [], [Line ''q''], []]
          = ([], Ret (False, scenario_state\<lparr>is_paused := True, should_stop := True\<rparr>, tl [[]]))"
    by blast
  with c d e
  have f: "replay_frames scenario_world 0 [0, 1] (scenario_state\<lparr>is_paused := True\<rparr>)
        [[], [], [Line ''q''], []]
       = ([], Ret (False, scenario_state\<lparr>is_paused := True, should_stop := True\<rparr>, []))"
    by (simp del: replay_frames.simps)
  have a: "should_stop (scenario_state\<lparr>should_stop := True\<rparr>)" by simp
  have "end_episode (scenario_state\<lparr>should_stop := True\<rparr>) = 2"
    and "cleanup (scenario_state\<lparr>should_stop := True,
           robot_connected := still_connected scenario_world (sends [LoadEpisode 0])\<rparr>)
         = [Disconnect]"
    by (simp_all add: scenario_state_def scenario_world_def cleanup_def)
  with a stop_observed_halts_sending
    [OF a, where w = scenario_world and e = 1 and fs = "[2, 3, 4]"
      and sch = "[[Line ''p''], []]" and cfg = scenario_cfg and es = "[1, 2]"
      and ?s0.0 = scenario_state and tr = "[LoadEpisode 0]"]
    c d e f
  show ?thesis by simp
qed

section \<open>Scenario A\<close>

text \<open>
  Claim C1. Three episodes of five frames, \<open>fps = 10\<close>, automatic advance with no
  delay, a robot that connects, accepts every action and still reports to be connected
  after the fifteen calls, and an operator who types nothing: the run calls
  \<^verbatim>\<open>send_action\<close> exactly fifteen times, with the recorded actions of the frames 0 to 4
  of the episodes 0, 1 and 2 in this order (each action being the dictionary of the
  episode's channel names and the frame's vector), ends with ``All episodes completed'',
  and disconnects exactly once, as its last action.
\<close>

theorem scenario_a_fifteen_sends:
  assumes "quiet sch"
    and "\<not> connect_raises w" and "link_up w"
    and "num_episodes w = 3"
    and "num_frames w 0 = 5" and "num_frames w 1 = 5" and "num_frames w 2 = 5"
    and "dataset_fps w = 10"
    and "\<forall>e f. send_action w e f = None"
    and "\<forall>e f. length (action_names w e) \<le> length (action_array w e f)"
    and "still_connected w
          [(0, 0), (0, 1), (0, 2), (0, 3), (0, 4),
           (1, 0), (1, 1), (1, 2), (1, 3), (1, 4),
           (2, 0), (2, 1), (2, 2), (2, 3), (2, 4)]"
    and "cfg_start_episode cfg = 0"
    and "cfg_end_episode cfg = - 1 \<or> cfg_end_episode cfg = 2"
    and "auto_advance cfg" and "episode_delay cfg = 0"
  shows "send_calls (fst (run cfg w sch)) =
      [SendAction 0 0 (action_of w 0 0), SendAction 0 1 (action_of w 0 1),
       SendAction 0 2 (action_of w 0 2), SendAction 0 3 (action_of w 0 3),
       SendAction 0 4 (action_of w 0 4),
       SendAction 1 0 (action_of w 1 0), SendAction 1 1 (action_of w 1 1),
       SendAction 1 2 (action_of w 1 2), SendAction 1 3 (action_of w 1 3),
       SendAction 1 4 (action_of w 1 4),
       SendAction 2 0 (action_of w 2 0), SendAction 2 1 (action_of w 2 1),
       SendAction 2 2 (action_of w 2 2), SendAction 2 3 (action_of w 2 3),
       SendAction 2 4 (action_of w 2 4)]
    \<and> (\<forall>e f. action_of w e f =
          fold (\<lambda>(name, v) action. AList.update name v action)
            (zip (action_names w e) (action_array w e f)) [])
    \<and> fst (run cfg w sch) =
        [Connect, LoadDataset]
        @ episode_events cfg w 2 0 @ episode_events cfg w 2 1 @ episode_events cfg w 2 2
        @ [Disconnect]
    \<and> sends (fst (run cfg w sch)) =
      [(0, 0), (0, 1), (0, 2), (0, 3), (0, 4),
       (1, 0), (1, 1), (1, 2), (1, 3), (1, 4),
       (2, 0), (2, 1), (2, 2), (2, 3), (2, 4)]
    \<and> snd (run cfg w sch) = Some (Completed 0 2)
    \<and> count_list (fst (run cfg w sch)) Disconnect = 1
    \<and> last (fst (run cfg w sch)) = Disconnect"
proof -
  have range: "episode_range (num_episodes w) (cfg_start_episode cfg) (cfg_end_episode cfg)
      = Inr (0, 2)"
    using assms(4,12,13) by (auto simp: episode_range_def)
  have frames: "\<forall>e \<in> {0 .. 2}. \<forall>f < num_frames w e. send_action w e f = None
      \<and> length (action_names w e) \<le> length (action_array w e f)"
    using assms(9,10) by simp
  have fps: "dataset_fps w \<noteq> 0"
    and delay: "0 \<le> episode_delay cfg \<and> episode_delay cfg * 1000000000 < 2 ^ 63"
    using assms(8,15) by simp_all
  have calls: "sends (concat (map (episode_events cfg w 2) [0 .. 2])) =
      [(0, 0), (0, 1), (0, 2), (0, 3), (0, 4),
       (1, 0), (1, 1), (1, 2), (1, 3), (1, 4),
       (2, 0), (2, 1), (2, 2), (2, 3), (2, 4)]"
    by (simp add: upto_0_2 sends_append sends_episode_events assms(5,6,7) upt_0_5)
  have r: "run cfg w sch =
    ([Connect, LoadDataset] @ concat (map (episode_events cfg w 2) [0 .. 2]) @ [Disconnect],
     Some (Completed 0 2))"
    using run_quiet [OF assms(1,2,3) fps assms(14) delay range frames] assms(11)
    by (simp only: calls if_True)
  have t: "fst (run cfg w sch) =
        [Connect, LoadDataset]
        @ episode_events cfg w 2 0 @ episode_events cfg w 2 1 @ episode_events cfg w 2 2
        @ [Disconnect]"
    by (simp add: r upto_0_2)
  have s: "sends (fst (run cfg w sch)) =
      [(0, 0), (0, 1), (0, 2), (0, 3), (0, 4),
       (1, 0), (1, 1), (1, 2), (1, 3), (1, 4),
       (2, 0), (2, 1), (2, 2), (2, 3), (2, 4)]"
    by (simp add: t sends_Cons sends_append sends_Nil sends_episode_events
        assms(5,6,7) upt_0_5)
  have sc: "send_calls (fst (run cfg w sch)) =
      [SendAction 0 0 (action_of w 0 0), SendAction 0 1 (action_of w 0 1),
       SendAction 0 2 (action_of w 0 2), SendAction 0 3 (action_of w 0 3),
       SendAction 0 4 (action_of w 0 4),
       SendAction 1 0 (action_of w 1 0), SendAction 1 1 (action_of w 1 1),
       SendAction 1 2 (action_of w 1 2), SendAction 1 3 (action_of w 1 3),
       SendAction 1 4 (action_of w 1 4),
       SendAction 2 0 (action_of w 2 0), SendAction 2 1 (action_of w 2 1),
       SendAction 2 2 (action_of w 2 2), SendAction 2 3 (action_of w 2 3),
       SendAction 2 4 (action_of w 2 4)]"
    by (simp add: t send_calls_Cons send_calls_append send_calls_Nil send_calls_episode_events
        assms(5,6,7) upt_0_5)
  have act: "\<forall>e f. action_of w e f =
          fold (\<lambda>(name, v) action. AList.update name v action)
            (zip (action_names w e) (action_array w e f)) []"
  proof (intro allI)
    fix e f
    from assms(10) have "\<not> length (action_array w e f) < length (action_names w e)"
      by (simp add: not_less)
    then show "action_of w e f =
          fold (\<lambda>(name, v) action. AList.update name v action)
            (zip (action_names w e) (action_array w e f)) []"
      by (simp add: action_of_def build_action_def)
  qed
  have "Disconnect \<notin> set (concat (map (episode_events cfg w 2) [0 .. 2]))"
    by (simp add: Disconnect_notin_episode_events)
  then have c: "count_list (fst (run cfg w sch)) Disconnect = 1"
    by (simp add: r)
  from r t s sc act c show ?thesis by simp
qed

theorem scenario_a_fifteen_sends_witness:
  "quiet [[], [], []]
   \<and> send_calls (fst (run scenario_cfg scenario_world [[], [], []])) =
      [SendAction 0 0 [(''shoulder_pan.pos'', 0), (''gripper.pos'', 0)],
       SendAction 0 1 [(''shoulder_pan.pos'', 1), (''gripper.pos'', 0)],
       SendAction 0 2 [(''shoulder_pan.pos'', 2), (''gripper.pos'', 0)],
       SendAction 0 3 [(''shoulder_pan.pos'', 3), (''gripper.pos'', 0)],
       SendAction 0 4 [(''shoulder_pan.pos'', 4), (''gripper.pos'', 0)],
       SendAction 1 0 [(''shoulder_pan.pos'', 0), (''gripper.pos'', 1)],
       SendAction 1 1 [(''shoulder_pan.pos'', 1), (''gripper.pos'', 1)],
       SendAction 1 2 [(''shoulder_pan.pos'', 2), (''gripper.pos'', 1)],
       SendAction 1 3 [(''shoulder_pan.pos'', 3), (''gripper.pos'', 1)],
       SendAction 1 4 [(''shoulder_pan.pos'', 4), (''gripper.pos'', 1)],
       SendAction 2 0 [(''shoulder_pan.pos'', 0), (''gripper.pos'', 2)],
       SendAction 2 1 [(''shoulder_pan.pos'', 1), (''gripper.pos'', 2)],
       SendAction 2 2 [(''shoulder_pan.pos'', 2), (''gripper.pos'', 2)],
       SendAction 2 3 [(''shoulder_pan.pos'', 3), (''gripper.pos'', 2)],
       SendAction 2 4 [(''shoulder_pan.pos'', 4), (''gripper.pos'', 2)]]
   \<and> sends (fst (run scenario_cfg scenario_world [[], [], []])) =
      [(0, 0), (0, 1), (0, 2), (0, 3), (0, 4),
       (1, 0), (1, 1), (1, 2), (1, 3), (1, 4),
       (2, 0), (2, 1), (2, 2), (2, 3), (2, 4)]
   \<and> snd (run scenario_cfg scenario_world [[], [], []]) = Some (Completed 0 2)
   \<and> count_list (fst (run scenario_cfg scenario_world [[], [], []])) Disconnect = 1
   \<and> last (fst (run scenario_cfg scenario_world [[], [], []])) = Disconnect"
proof -
  have act: "action_of scenario_world e f = [(''shoulder_pan.pos'', real f), (''gripper.pos'', real_of_int e)]"
    for e f
    by (simp add: action_of_def build_action_def scenario_world_def)
  have h: "quiet [[], [], []]" "\<not> connect_raises scenario_world" "link_up scenario_world"
    "num_episodes scenario_world = 3"
    "num_frames scenario_world 0 = 5" "num_frames scenario_world 1 = 5"
    "num_frames scenario_world 2 = 5" "dataset_fps scenario_world = 10"
    "\<forall>e f. send_action scenario_world e f = None"
    "\<forall>e f. length (action_names scenario_world e) \<le> length (action_array scenario_world e f)"
    "still_connected scenario_world
          [(0, 0), (0, 1), (0, 2), (0, 3), (0, 4),
           (1, 0), (1, 1), (1, 2), (1, 3), (1, 4),
           (2, 0), (2, 1), (2, 2), (2, 3), (2, 4)]"
    "cfg_start_episode scenario_cfg = 0"
    "cfg_end_episode scenario_cfg = - 1 \<or> cfg_end_episode scenario_cfg = 2"
    "auto_advance scenario_cfg" "episode_delay scenario_cfg = 0"
    by (simp_all add: quiet_def scenario_world_def scenario_cfg_def)
  from scenario_a_fifteen_sends [OF h]
  have "send_calls (fst (run scenario_cfg scenario_world [[], [], []])) =
      [SendAction 0 0 (action_of scenario_world 0 0), SendAction 0 1 (action_of scenario_world 0 1),
       SendAction 0 2 (action_of scenario_world 0 2), SendAction 0 3 (action_of scenario_world 0 3),
       SendAction 0 4 (action_of scenario_world 0 4),
       SendAction 1 0 (action_of scenario_world 1 0), SendAction 1 1 (action_of scenario_world 1 1),
       SendAction 1 2 (action_of scenario_world 1 2), SendAction 1 3 (action_of scenario_world 1 3),
       SendAction 1 4 (action_of scenario_world 1 4),
       SendAction 2 0 (action_of scenario_world 2 0), SendAction 2 1 (action_of scenario_world 2 1),
       SendAction 2 2 (action_of scenario_world 2 2), SendAction 2 3 (action_of scenario_world 2 3),
       SendAction 2 4 (action_of scenario_world 2 4)]
    \<and> sends (fst (run scenario_cfg scenario_world [[], [], []])) =
      [(0, 0), (0, 1), (0, 2), (0, 3), (0, 4),
       (1, 0), (1, 1), (1, 2), (1, 3), (1, 4),
       (2, 0), (2, 1), (2, 2), (2, 3), (2, 4)]
    \<and> snd (run scenario_cfg scenario_world [[], [], []]) = Some (Completed 0 2)
    \<and> count_list (fst (run scenario_cfg scenario_world [[], [], []])) Disconnect = 1
    \<and> last (fst (run scenario_cfg scenario_world [[], [], []])) = Disconnect"
    by blast
  then show ?thesis
    by (simp add: act quiet_def)
qed

section \<open>A failing send\<close>

text \<open>
  Claim C2, as the code has it. In \<^verbatim>\<open>replay_all_episodes.py\<close>, when \<^verbatim>\<open>send_action\<close>
  raises on frame \<open>f\<close> of episode \<open>e\<close>, this call is the last one made to the robot
  before the cleanup; every action sent is the recorded action of a frame of an episode
  up to \<open>e\<close>, so no frame of a later episode is sent; the run ends with the error
  outcome, which carries the exception raised; and the cleanup disconnects exactly once,
  as the last action, if the robot still reports to be connected after these calls, and
  not at all otherwise.
\<close>

theorem send_failure_halts_run:
  assumes "run cfg w sch = (tr, out)"
    and "SendAction e f a \<in> set tr"
    and "send_action w e f = Some msg"
  shows "out = Some (Failed (SendError msg))
    \<and> (\<forall>e' f' a'. SendAction e' f' a' \<in> set tr \<longrightarrow>
          e' \<le> e \<and> f' < num_frames w e'
          \<and> build_action (action_names w e') (action_array w e' f') = Inr a')
    \<and> (\<exists>tr'. tr = tr' @ SendAction e f a #
                  (if still_connected w (sends tr' @ [(e, f)]) then [Disconnect] else [])
          \<and> Disconnect \<notin> set tr')"
proof -
  obtain tr0 s0 eo where su: "setup_robot_and_dataset cfg w (init_replayer cfg) = (tr0, s0, eo)"
    by (cases "setup_robot_and_dataset cfg w (init_replayer cfg)")
  show ?thesis
  proof (cases eo)
    case (Some err)
    with su assms(1) have "tr = tr0 @ cleanup s0" by (simp add: run_def)
    with setup_failed [OF su [unfolded Some]] assms(2) show ?thesis
      by (auto simp: cleanup_def split: if_splits)
  next
    case None
    note ok = setup_ok [OF su [unfolded None]]
    obtain trl r where el: "episode_loop cfg w [current_episode s0..end_episode s0]
        (s0\<lparr>listening := True\<rparr>) sch = (trl, r)"
      by (cases "episode_loop cfg w [current_episode s0..end_episode s0] (s0\<lparr>listening := True\<rparr>) sch")
    obtain trc where c: "conclude w s0 (trl, r) = (trc, out)" and tr: "tr = tr0 @ trc"
      using su None el assms(1) by (auto simp: run_def split: prod.splits)
    have prefix: "\<exists>tr''. trc = trl @ tr'' \<and> set tr'' \<subseteq> {Disconnect}"
      using c by (cases r) (auto simp: conclude_def cleanup_def split: prod.splits if_splits)
    with tr ok(1) assms(2) have mem: "SendAction e f a \<in> set trl" by auto
    from episode_loop_failed_send [OF sorted_upto el mem assms(3)] obtain tr' where
      r: "r = Raise (SendError msg)" and trl: "trl = tr' @ [SendAction e f a]"
      and le: "\<forall>e' f' a'. SendAction e' f' a' \<in> set trl \<longrightarrow> e' \<le> e" by blast
    have payload: "f' < num_frames w e'
        \<and> build_action (action_names w e') (action_array w e' f') = Inr a'"
      if "SendAction e' f' a' \<in> set trl" for e' f' a'
      using episode_loop_events [OF el that] by auto
    have st: "sends trl = sends tr' @ [(e, f)]"
      by (simp add: trl sends_append sends_Cons sends_Nil)
    have sp: "sends ([Connect, LoadDataset] @ tr') = sends tr'"
      by (simp add: sends_Cons)
    from c r have out: "out = Some (Failed (SendError msg))"
      and trc: "trc = trl @ (if still_connected w (sends trl) then [Disconnect] else [])"
      by (simp_all add: conclude_def cleanup_def)
    have "Disconnect \<notin> set trl"
      using episode_loop_events [OF el, of Disconnect] by auto
    with trl have nd: "Disconnect \<notin> set ([Connect, LoadDataset] @ tr')" by simp
    from tr trc trl ok(1) st sp
    have "tr = ([Connect, LoadDataset] @ tr') @ SendAction e f a #
        (if still_connected w (sends ([Connect, LoadDataset] @ tr') @ [(e, f)])
         then [Disconnect] else [])"
      by simp
    with nd have last: "\<exists>tr'. tr = tr' @ SendAction e f a #
                  (if still_connected w (sends tr' @ [(e, f)]) then [Disconnect] else [])
          \<and> Disconnect \<notin> set tr'"
      by blast
    have "SendAction e' f' a' \<in> set trl" if "SendAction e' f' a' \<in> set tr" for e' f' a'
      using that tr trc ok(1) by (auto split: if_splits)
    with le payload
    have all: "\<forall>e' f' a'. SendAction e' f' a' \<in> set tr \<longrightarrow>
          e' \<le> e \<and> f' < num_frames w e'
          \<and> build_action (action_names w e') (action_array w e' f') = Inr a'"
      by blast
    from out all last show ?thesis by blast
  qed
qed

theorem send_failure_halts_run_witness:
  "SendAction 1 3 [(''shoulder_pan.pos'', 3), (''gripper.pos'', 1)]
     \<in> set (fst (run scenario_cfg (failing_world 1 3 ''timeout'') [[Line ''p''], [Line ''p'']]))
   \<and> send_action (failing_world 1 3 ''timeout'') 1 3 = Some ''timeout''
   \<and> snd (run scenario_cfg (failing_world 1 3 ''timeout'') [[Line ''p''], [Line ''p'']])
       = Some (Failed (SendError ''timeout''))
   \<and> sends (fst (run scenario_cfg (failing_world 1 3 ''timeout'') [[Line ''p''], [Line ''p'']]))
       = [(0, 0), (0, 1), (0, 2), (0, 3), (0, 4), (1, 0), (1, 1), (1, 2), (1, 3)]
   \<and> last (fst (run scenario_cfg (failing_world 1 3 ''timeout'') [[Line ''p''], [Line ''p'']]))
       = Disconnect
   \<and> SendAction 0 1 [(''shoulder_pan.pos'', 1), (''gripper.pos'', 0)]
     \<in> set (fst (run scenario_cfg
                 ((failing_world 0 1 ''link down'')\<lparr>still_connected := (\<lambda>calls. calls = [])\<rparr>) []))
   \<and> snd (run scenario_cfg
            ((failing_world 0 1 ''link down'')\<lparr>still_connected := (\<lambda>calls. calls = [])\<rparr>) [])
       = Some (Failed (SendError ''link down''))
   \<and> last (fst (run scenario_cfg
                 ((failing_world 0 1 ''link down'')\<lparr>still_connected := (\<lambda>calls. calls = [])\<rparr>) []))
       = SendAction 0 1 [(''shoulder_pan.pos'', 1), (''gripper.pos'', 0)]
   \<and> count_list (fst (run scenario_cfg
                 ((failing_world 0 1 ''link down'')\<lparr>still_connected := (\<lambda>calls. calls = [])\<rparr>) []))
         Disconnect = 0"
proof -
  let ?r = "run scenario_cfg (failing_world 1 3 ''timeout'') [[Line ''p''], [Line ''p'']]"
  have a: "SendAction 1 3 [(''shoulder_pan.pos'', 3), (''gripper.pos'', 1)] \<in> set (fst ?r)"
    by code_simp
  have b: "send_action (failing_world 1 3 ''timeout'') 1 3 = Some ''timeout''"
    by (simp add: failing_world_def)
  have c: "sends (fst ?r) = [(0, 0), (0, 1), (0, 2), (0, 3), (0, 4), (1, 0), (1, 1), (1, 2), (1, 3)]"
    by code_simp
  have sc: "still_connected (failing_world 1 3 ''timeout'') calls" for calls
    by (simp add: failing_world_def scenario_world_def)
  have d: "?r = (fst ?r, snd ?r)" by simp
  from send_failure_halts_run [OF d a b] sc obtain tr' where
    "snd ?r = Some (Failed (SendError ''timeout''))"
    "fst ?r = tr' @ [SendAction 1 3 [(''shoulder_pan.pos'', 3), (''gripper.pos'', 1)], Disconnect]"
    by auto
  then have first: "snd ?r = Some (Failed (SendError ''timeout''))" "last (fst ?r) = Disconnect"
    by simp_all
  let ?w = "(failing_world 0 1 ''link down'')\<lparr>still_connected := (\<lambda>calls. calls = [])\<rparr>"
  let ?q = "run scenario_cfg ?w []"
  have a': "SendAction 0 1 [(''shoulder_pan.pos'', 1), (''gripper.pos'', 0)] \<in> set (fst ?q)"
    by code_simp
  have b': "send_action ?w 0 1 = Some ''link down''"
    by (simp add: failing_world_def)
  have nc: "\<not> still_connected ?w (calls @ [(0, 1)])" for calls
    by simp
  have d': "?q = (fst ?q, snd ?q)" by simp
  from send_failure_halts_run [OF d' a' b'] nc obtain tr'' where
    "snd ?q = Some (Failed (SendError ''link down''))"
    "fst ?q = tr'' @ [SendAction 0 1 [(''shoulder_pan.pos'', 1), (''gripper.pos'', 0)]]"
    "Disconnect \<notin> set tr''"
    by auto
  then have second: "snd ?q = Some (Failed (SendError ''link down''))"
    "last (fst ?q) = SendAction 0 1 [(''shoulder_pan.pos'', 1), (''gripper.pos'', 0)]"
    "count_list (fst ?q) Disconnect = 0"
    by simp_all
  from a b c first a' second show ?thesis by simp
qed

text \<open>
  The outcome does not record the episode and the frame: a failure on frame 3 of
  episode 1 and a failure on frame 1 of episode 0 with the same message end in the same
  outcome.
\<close>

theorem failure_outcome_omits_frame:
  "snd (run scenario_cfg (failing_world 1 3 ''timeout'') []) = Some (Failed (SendError ''timeout''))
   \<and> snd (run scenario_cfg (failing_world 0 1 ''timeout'') []) = Some (Failed (SendError ''timeout''))"
  by code_simp

section \<open>The skip command\<close>

text \<open>
  Claim C3 on the code. The handler of \<^verbatim>\<open>s\<close> prints ``Skipping current episode...''
  and leaves the listener's loop with \<^verbatim>\<open>break\<close>; it sets no flag. In scenario A, with
  \<^verbatim>\<open>s\<close> typed before frame 1 of episode 0 and \<^verbatim>\<open>q\<close> typed later, the main thread
  still sends all fifteen frames and reports completion: the listener thread has ended,
  so the later \<^verbatim>\<open>q\<close> is never read.
\<close>

theorem skip_ends_listener_only:
  "sends (fst (run scenario_cfg scenario_world
       [[], [], [], [], [Line ''s''], [], [], [Line ''q'']])) =
      [(0, 0), (0, 1), (0, 2), (0, 3), (0, 4),
       (1, 0), (1, 1), (1, 2), (1, 3), (1, 4),
       (2, 0), (2, 1), (2, 2), (2, 3), (2, 4)]
   \<and> snd (run scenario_cfg scenario_world
       [[], [], [], [], [Line ''s''], [], [], [Line ''q'']]) = Some (Completed 0 2)
   \<and> listener_body (Line ''s'') scenario_state
       = (scenario_state\<lparr>listening := False\<rparr>, [SkippingEpisode])
   \<and> deliver [Line ''s'', Line ''q''] scenario_state = scenario_state\<lparr>listening := False\<rparr>
   \<and> rr_listener_body rr_scenario_world (Line ''skip'') scenario_state
       = (scenario_state\<lparr>listening := False\<rparr>, [], [SkippingEpisode])"
  by code_simp

section \<open>Reset while a frame is being sent\<close>

text \<open>
  Claim C8, as the code has it. \<^verbatim>\<open>replay_with_real_robot.py\<close> has no exclusive access
  to \<^verbatim>\<open>send_action\<close>: the handler of \<^verbatim>\<open>r\<close> calls it on the listener thread at once.
  Whenever a running listener handles a reset line while the main thread's call for a
  frame is in flight, the call for the home position starts before the frame's call has
  returned, so the trace is not serialized.
\<close>

theorem reset_send_overlaps_frame_send:
  assumes "listening s" and "\<not> should_stop s" and "\<not> is_paused s"
    and "build_action (action_names w e) (action_array w e f) = Inr action"
    and "lower (strip l) = ''r'' \<or> lower (strip l) = ''reset''"
  shows "(\<exists>rest. fst (rr_replay_frames w e (f # fs) s ([] # [] # [] # (Line l # evs) # sch))
            = SendBegin MainThread action # SendBegin ListenerThread home_action # rest)
    \<and> \<not> serialized (fst (rr_replay_frames w e (f # fs) s ([] # [] # [] # (Line l # evs) # sch)))"
proof -
  from rr_deliver_reset [OF assms(1,2,5)] obtain rest4 s4 where
    d: "rr_deliver w (Line l # evs) s =
      (SendBegin ListenerThread home_action # SendDone ListenerThread # rest4, s4)"
    by blast
  then have p4: "rr_poll w s ((Line l # evs) # sch) =
      (SendBegin ListenerThread home_action # SendDone ListenerThread # rest4, s4, sch)"
    by (simp add: rr_poll_def del: rr_deliver.simps)
  let ?tr = "[SendBegin MainThread action]
      @ (SendBegin ListenerThread home_action # SendDone ListenerThread # rest4)
      @ [SendDone MainThread]"
  obtain tr' r' where rec: "rr_replay_frames w e fs s4 sch = (tr', r')"
    by (cases "rr_replay_frames w e fs s4 sch")
  have "rr_replay_frames w e (f # fs) s ([] # [] # [] # (Line l # evs) # sch) =
      (case send_action w e f of
         Some msg \<Rightarrow> (?tr, Ret (False, s4, sch))
       | None \<Rightarrow>
          (if f mod 10 = 0 \<and> \<not> set progress_keys \<subseteq> fst ` set action
           then (?tr, Raise KeyError)
           else if dataset_fps w = 0 then (?tr, Raise ZeroDivisionError)
           else (?tr @ tr', r')))"
    using assms(2,4) p4 rec rr_pause_wait_playing [OF assms(3)]
    by (cases "send_action w e f")
      (simp_all add: rr_poll_quiet_batch Let_def del: rr_deliver.simps rr_pause_wait.simps)
  then have "\<exists>rest. fst (rr_replay_frames w e (f # fs) s ([] # [] # [] # (Line l # evs) # sch))
            = SendBegin MainThread action # SendBegin ListenerThread home_action # rest"
    by (cases "send_action w e f") auto
  then show ?thesis
    by (auto simp: overlap_not_serialized)
qed

theorem reset_send_overlaps_frame_send_witness:
  "listening scenario_state \<and> \<not> should_stop scenario_state \<and> \<not> is_paused scenario_state
   \<and> build_action (action_names rr_scenario_world 0) (action_array rr_scenario_world 0 0)
       = Inr (action_of rr_scenario_world 0 0)
   \<and> lower (strip '' Reset '') = ''reset''
   \<and> \<not> serialized (fst (rr_replay_frames rr_scenario_world 0 [0, 1] scenario_state
         [[], [], [], [Line '' Reset '', Line ''p''], []]))"
proof -
  have a: "listening scenario_state" and b: "\<not> should_stop scenario_state"
    and c: "\<not> is_paused scenario_state"
    by (simp_all add: scenario_state_def)
  have d: "build_action (action_names rr_scenario_world 0) (action_array rr_scenario_world 0 0)
       = Inr (action_of rr_scenario_world 0 0)"
    by (simp add: build_action_def action_of_def rr_scenario_world_def home_action_def)
  have e: "lower (strip '' Reset '') = ''r'' \<or> lower (strip '' Reset '') = ''reset''"
    by (simp add: lower_def strip_def isspace_def lower_char_def)
  have f: "lower (strip '' Reset '') = ''reset''"
    by (simp add: lower_def strip_def isspace_def lower_char_def)
  from reset_send_overlaps_frame_send [OF a b c d e, of "[1]" "[Line ''p'']" "[[]]"] a b c d f
  show ?thesis by blast
qed

text \<open>
  One such interleaving in scenario A: the operator's \<^verbatim>\<open>r\<close> is handled during the send
  of frame 0 of episode 0. The listener's call starts and returns inside the main
  thread's call.
\<close>

theorem reset_interleaves_with_frame_send:
  "call_order (fst (rr_replay_frames rr_scenario_world 0 [0] scenario_state
       [[], [], [], [Line ''r'']]))
     = [(MainThread, Starts), (ListenerThread, Starts),
        (ListenerThread, Returns), (MainThread, Returns)]
   \<and> \<not> serialized (fst (rr_replay_frames rr_scenario_world 0 [0] scenario_state
       [[], [], [], [Line ''r'']]))"
  by code_simp

end
